theory Spec2Isabelle
  imports Complex_Main "HOL-Library.Word" "HOL-Library.Sublist"
begin

section \<open>JavaScript values\<close>

text \<open>
  The program is TypeScript: its types are erased when it runs, and the values it computes
  with are JavaScript values.  This section models the part of the language the quoting
  tool relies on: strings, numbers, the dynamically typed values that \<open>JSON.parse\<close> returns,
  and the conversions \<open>Boolean\<close> (truthiness) and \<open>Number\<close>.
\<close>

subsection \<open>Strings\<close>

text \<open>
  A JavaScript string is a sequence of 16-bit code units.  \<open>js\<close> turns a literal of the
  theory into such a sequence.
\<close>

type_synonym jschar = "16 word"
type_synonym jsstring = "jschar list"

definition js :: "string \<Rightarrow> jsstring" where
  "js s = map of_char s"

text \<open>
  White space as \<open>String.prototype.trim\<close>, the class \<open>\s\<close> of a regular expression and
  the string-to-number conversion understand it: the WhiteSpace and LineTerminator code
  points of ECMAScript.
\<close>

definition is_space :: "jschar \<Rightarrow> bool" where
  "is_space c \<longleftrightarrow>
     c \<in> set [0x09, 0x0A, 0x0B, 0x0C, 0x0D, 0x20, 0xA0, 0x1680, 0x2028, 0x2029,
               0x202F, 0x205F, 0x3000, 0xFEFF]
     \<or> (0x2000 \<le> c \<and> c \<le> 0x200A)"

definition trim :: "jsstring \<Rightarrow> jsstring" where
  "trim s = rev (dropWhile is_space (rev (dropWhile is_space s)))"

definition is_digit :: "jschar \<Rightarrow> bool" where
  "is_digit c \<longleftrightarrow> 0x30 \<le> c \<and> c \<le> 0x39"

text \<open>The value of a digit in a radix up to sixteen, if the code unit is one.\<close>

definition digit_of :: "nat \<Rightarrow> jschar \<Rightarrow> nat option" where
  "digit_of radix c =
     (let v = (if 0x30 \<le> c \<and> c \<le> 0x39 then Some (unat c - 0x30)
               else if 0x61 \<le> c \<and> c \<le> 0x66 then Some (unat c - 0x61 + 10)
               else if 0x41 \<le> c \<and> c \<le> 0x46 then Some (unat c - 0x41 + 10)
               else None)
      in case v of None \<Rightarrow> None | Some d \<Rightarrow> if d < radix then Some d else None)"

text \<open>A non-empty run of digits of the radix, read as a natural number.\<close>

fun digits_acc :: "nat \<Rightarrow> nat \<Rightarrow> jsstring \<Rightarrow> nat option" where
  "digits_acc radix acc [] = Some acc"
| "digits_acc radix acc (c # cs) =
     (case digit_of radix c of
        None \<Rightarrow> None
      | Some d \<Rightarrow> digits_acc radix (radix * acc + d) cs)"

definition digits_val :: "nat \<Rightarrow> jsstring \<Rightarrow> nat option" where
  "digits_val radix ds = (if ds = [] then None else digits_acc radix 0 ds)"

subsection \<open>Numbers\<close>

text \<open>
  A JavaScript number is an IEEE 754 double.  The model keeps the three kinds of number
  the program can tell apart, \<open>NaN\<close>, the finite numbers and the two infinities
  (\<open>Infinity True\<close> is the positive one), and computes on the finite ones with exact real
  arithmetic: the rounding of doubles, their overflow to an infinity and the sign of zero
  are not represented.
\<close>

datatype jsnum = NaN | Fin real | Infinity bool

fun num_add :: "jsnum \<Rightarrow> jsnum \<Rightarrow> jsnum" where
  "num_add NaN y = NaN"
| "num_add x NaN = NaN"
| "num_add (Fin a) (Fin b) = Fin (a + b)"
| "num_add (Fin a) (Infinity q) = Infinity q"
| "num_add (Infinity p) (Fin b) = Infinity p"
| "num_add (Infinity p) (Infinity q) = (if p = q then Infinity p else NaN)"

fun num_mul :: "jsnum \<Rightarrow> jsnum \<Rightarrow> jsnum" where
  "num_mul NaN y = NaN"
| "num_mul x NaN = NaN"
| "num_mul (Fin a) (Fin b) = Fin (a * b)"
| "num_mul (Fin a) (Infinity q) = (if a = 0 then NaN else Infinity (q = (0 < a)))"
| "num_mul (Infinity p) (Fin b) = (if b = 0 then NaN else Infinity (p = (0 < b)))"
| "num_mul (Infinity p) (Infinity q) = Infinity (p = q)"

fun num_div :: "jsnum \<Rightarrow> jsnum \<Rightarrow> jsnum" where
  "num_div NaN y = NaN"
| "num_div x NaN = NaN"
| "num_div (Fin a) (Fin b) =
     (if b = 0 then (if a = 0 then NaN else Infinity (0 < a)) else Fin (a / b))"
| "num_div (Fin a) (Infinity q) = Fin 0"
| "num_div (Infinity p) (Fin b) = Infinity (p = (0 \<le> b))"
| "num_div (Infinity p) (Infinity q) = NaN"

fun num_neg :: "jsnum \<Rightarrow> jsnum" where
  "num_neg NaN = NaN"
| "num_neg (Fin a) = Fin (- a)"
| "num_neg (Infinity p) = Infinity (\<not> p)"



subsection \<open>Strings to numbers\<close>

text \<open>
  \<open>Number(s)\<close> on a string \<open>s\<close> (StringToNumber of ECMAScript): white space around the
  literal is dropped; the empty string is \<open>0\<close>; the literal is a decimal literal with an
  optional sign, \<open>Infinity\<close> with an optional sign, or an unsigned integer in radix 16, 8
  or 2 behind \<open>0x\<close>, \<open>0o\<close> or \<open>0b\<close>; anything else is \<open>NaN\<close>.
\<close>

text \<open>The exponent part \<open>e[+-]?digits\<close>, which must reach the end of the string.\<close>

definition exponent_part :: "jsstring \<Rightarrow> int option" where
  "exponent_part r =
     (case r of
        [] \<Rightarrow> Some 0
      | c # r' \<Rightarrow>
          if c = 0x65 \<or> c = 0x45 then
            (case r' of
               [] \<Rightarrow> None
             | d # r'' \<Rightarrow>
                 if d = 0x2B then map_option int (digits_val 10 r'')
                 else if d = 0x2D then map_option (\<lambda>n. - int n) (digits_val 10 r'')
                 else map_option int (digits_val 10 r'))
          else None)"

definition scale10 :: "real \<Rightarrow> int \<Rightarrow> real" where
  "scale10 m e = (if 0 \<le> e then m * 10 ^ nat e else m / 10 ^ nat (- e))"

definition str_unsigned_decimal :: "jsstring \<Rightarrow> jsnum option" where
  "str_unsigned_decimal s =
     (if s = js ''Infinity'' then Some (Infinity True)
      else
        let ip = takeWhile is_digit s;
            r1 = dropWhile is_digit s;
            has_dot = (case r1 of [] \<Rightarrow> False | c # r \<Rightarrow> c = 0x2E);
            fp = (if has_dot then takeWhile is_digit (drop 1 r1) else []);
            r2 = (if has_dot then dropWhile is_digit (drop 1 r1) else r1)
        in if ip = [] \<and> fp = [] then None
           else
             (case (digits_val 10 (ip @ fp), exponent_part r2) of
                (Some m, Some e) \<Rightarrow> Some (Fin (scale10 (real m / 10 ^ length fp) e))
              | _ \<Rightarrow> None))"

definition str_decimal :: "jsstring \<Rightarrow> jsnum option" where
  "str_decimal s =
     (case s of
        [] \<Rightarrow> None
      | c # r \<Rightarrow>
          if c = 0x2B then str_unsigned_decimal r
          else if c = 0x2D then map_option num_neg (str_unsigned_decimal r)
          else str_unsigned_decimal s)"

definition non_decimal_integer :: "jsstring \<Rightarrow> nat option" where
  "non_decimal_integer s =
     (case s of
        z # x # ds \<Rightarrow>
          if z \<noteq> 0x30 then None
          else if x = 0x78 \<or> x = 0x58 then digits_val 16 ds
          else if x = 0x6F \<or> x = 0x4F then digits_val 8 ds
          else if x = 0x62 \<or> x = 0x42 then digits_val 2 ds
          else None
      | _ \<Rightarrow> None)"

definition StringToNumber :: "jsstring \<Rightarrow> jsnum" where
  "StringToNumber s =
     (let t = trim s in
      if t = [] then Fin 0
      else
        (case non_decimal_integer t of
           Some n \<Rightarrow> Fin (real n)
         | None \<Rightarrow> (case str_decimal t of Some n \<Rightarrow> n | None \<Rightarrow> NaN)))"

subsection \<open>Dynamically typed values\<close>

text \<open>
  The values that \<open>JSON.parse\<close> returns and that the fields of a quote hold at run time.
  An object is the list of its own properties.
\<close>

datatype jsval =
    JUndefined
  | JNull
  | JBool bool
  | JNum jsnum
  | JStr jsstring
  | JArr "jsval list"
  | JObj "(jsstring \<times> jsval) list"

text \<open>
  The exceptions of the program.  \<open>TypeError\<close> and \<open>SyntaxError\<close> are raised by the
  language; the other three are the \<open>Error\<close> objects that the program creates, named by
  their messages:
  \<^item> \<open>Error_formato_esperado\<close>: "A resposta da IA nao corresponde ao formato esperado."
  \<^item> \<open>Error_JSON_valido\<close>: "A resposta da IA nao estava em um formato JSON valido."
  \<^item> \<open>Error_API_Key\<close>: "API Key nao encontrada. Por favor, configure a variavel de ambiente
    'VITE_API_KEY' (ou 'API_KEY') nas configuracoes do seu projeto no Vercel."
\<close>

datatype js_error =
    TypeError
  | SyntaxError
  | Error_formato_esperado
  | Error_JSON_valido
  | Error_API_Key

text \<open>Truthiness, as \<open>if (v)\<close>, \<open>!v\<close>, \<open>v || w\<close> and \<open>v && w\<close> test it.\<close>

fun ToBoolean :: "jsval \<Rightarrow> bool" where
  "ToBoolean JUndefined = False"
| "ToBoolean JNull = False"
| "ToBoolean (JBool b) = b"
| "ToBoolean (JNum n) = (n \<noteq> NaN \<and> n \<noteq> Fin 0)"
| "ToBoolean (JStr s) = (s \<noteq> [])"
| "ToBoolean (JArr xs) = True"
| "ToBoolean (JObj kvs) = True"

text \<open>
  \<open>Number(v)\<close> and \<open>String(v)\<close> turn an object into a primitive value with its methods
  \<open>valueOf\<close> and \<open>toString\<close>, and throw a \<open>TypeError\<close> when neither gives one.  The
  objects here are those of \<open>JSON.parse\<close>: an own property is never a function, the
  inherited \<open>valueOf\<close> returns the object itself, and the inherited \<open>toString\<close> returns
  \<open>[object Object]\<close>.  So the conversion of an object throws when the object has an own
  property \<open>toString\<close>, which hides the inherited one.  An array converts through the
  string that joins its elements with commas, where \<open>null\<close> and \<open>undefined\<close> give the
  empty string: the conversion throws when that of an element does.
\<close>

fun converts :: "jsval \<Rightarrow> bool" where
  "converts (JObj kvs) = (map_of kvs (js ''toString'') = None)"
| "converts (JArr xs) = list_all converts xs"
| "converts v = True"

text \<open>
  The number of the string that joins the elements of an array, when no element throws:
  the empty array gives the empty string, hence \<open>0\<close>; one element gives the string of
  that element, and a number printed and read again is the same number; two or more
  elements give a string with a comma, which is no numeric literal.
\<close>

fun array_number :: "jsval list \<Rightarrow> jsnum" where
  "array_number [] = Fin 0"
| "array_number [JUndefined] = Fin 0"
| "array_number [JNull] = Fin 0"
| "array_number [JBool b] = NaN"
| "array_number [JNum n] = n"
| "array_number [JStr s] = StringToNumber s"
| "array_number [JObj kvs] = NaN"
| "array_number [JArr ys] = array_number ys"
| "array_number (x # y # zs) = NaN"

text \<open>\<open>Number(v)\<close>: a number, or the exception.\<close>

fun ToNumber :: "jsval \<Rightarrow> js_error + jsnum" where
  "ToNumber JUndefined = Inr NaN"
| "ToNumber JNull = Inr (Fin 0)"
| "ToNumber (JBool b) = Inr (if b then Fin 1 else Fin 0)"
| "ToNumber (JNum n) = Inr n"
| "ToNumber (JStr s) = Inr (StringToNumber s)"
| "ToNumber (JObj kvs) = (if converts (JObj kvs) then Inr NaN else Inl TypeError)"
| "ToNumber (JArr xs) = (if converts (JArr xs) then Inr (array_number xs) else Inl TypeError)"

text \<open>
  An expression is evaluated from left to right, and an exception in an operand is the
  exception of the expression.
\<close>

definition lift1 :: "('a \<Rightarrow> 'b) \<Rightarrow> js_error + 'a \<Rightarrow> js_error + 'b" where
  "lift1 f a = (case a of Inl e \<Rightarrow> Inl e | Inr x \<Rightarrow> Inr (f x))"

definition lift2 :: "('a \<Rightarrow> 'b \<Rightarrow> 'c) \<Rightarrow> js_error + 'a \<Rightarrow> js_error + 'b \<Rightarrow> js_error + 'c" where
  "lift2 f a b =
     (case a of
        Inl e \<Rightarrow> Inl e
      | Inr x \<Rightarrow> (case b of Inl e \<Rightarrow> Inl e | Inr y \<Rightarrow> Inr (f x y)))"

definition lift3 ::
  "('a \<Rightarrow> 'b \<Rightarrow> 'c \<Rightarrow> 'd) \<Rightarrow> js_error + 'a \<Rightarrow> js_error + 'b \<Rightarrow> js_error + 'c \<Rightarrow> js_error + 'd" where
  "lift3 f a b c =
     (case a of
        Inl e \<Rightarrow> Inl e
      | Inr x \<Rightarrow>
          (case b of
             Inl e \<Rightarrow> Inl e
           | Inr y \<Rightarrow> (case c of Inl e \<Rightarrow> Inl e | Inr z \<Rightarrow> Inr (f x y z))))"

text \<open>\<open>v ?? w\<close> takes \<open>w\<close> when \<open>v\<close> is \<open>null\<close> or \<open>undefined\<close>; \<open>v || w\<close> when \<open>v\<close> is falsy.\<close>

definition nullish :: "jsval \<Rightarrow> bool" where
  "nullish v \<longleftrightarrow> v = JUndefined \<or> v = JNull"

definition coalesce :: "jsval \<Rightarrow> jsval \<Rightarrow> jsval" where
  "coalesce v w = (if nullish v then w else v)"

definition or_else :: "jsval \<Rightarrow> jsval \<Rightarrow> jsval" where
  "or_else v w = (if ToBoolean v then v else w)"

text \<open>\<open>n || d\<close> on a number: \<open>d\<close> replaces \<open>NaN\<close> and zero.\<close>

definition num_or :: "jsnum \<Rightarrow> jsnum \<Rightarrow> jsnum" where
  "num_or n d = (if ToBoolean (JNum n) then n else d)"

subsection \<open>Property reads\<close>

text \<open>
  The read \<open>v.k\<close>.  On \<open>null\<close> and \<open>undefined\<close> it throws.  On an object it is the own
  property, if there is one.  The program reads only names that no prototype defines
  (\<open>title\<close>, \<open>steps\<close>, \<open>suggestedPrice\<close>, \<open>unitPrice\<close> and the like), so every other read,
  also on a string, a number, a boolean or an array, is \<open>undefined\<close>.
\<close>

fun get_prop :: "jsval \<Rightarrow> jsstring \<Rightarrow> js_error + jsval" where
  "get_prop JUndefined k = Inl TypeError"
| "get_prop JNull k = Inl TypeError"
| "get_prop (JObj kvs) k = Inr (case map_of kvs k of None \<Rightarrow> JUndefined | Some v \<Rightarrow> v)"
| "get_prop v k = Inr JUndefined"

text \<open>The optional read \<open>v?.k\<close>: \<open>undefined\<close> on \<open>null\<close> and \<open>undefined\<close>, never an exception.\<close>

definition get_opt :: "jsval \<Rightarrow> jsstring \<Rightarrow> jsval" where
  "get_opt v k = (case get_prop v k of Inl e \<Rightarrow> JUndefined | Inr w \<Rightarrow> w)"

section \<open>The quote and its steps\<close>

text \<open>
  \<open>QuoteStep\<close> and \<open>QuoteData\<close> of \<open>types.ts\<close>.  The numeric fields of a step are declared
  \<open>number\<close>, but a quote comes back from \<open>JSON.parse\<close> (the browser's storage, the deep
  copy that \<open>QuoteResult\<close> takes of its \<open>quote\<close> property) and the calculators guard every
  read with \<open>Number\<close> and \<open>||\<close>; so a field of a step holds any value, and \<open>JUndefined\<close>
  when the property is missing.  \<open>QuoteFragment\<close> is what \<open>generateQuote\<close> returns:
  \<open>QuoteData\<close> without \<open>id\<close>, \<open>date\<close> and the client's fields.
\<close>

record QuoteStep =
  title :: jsval
  description :: jsval
  suggestedPrice :: jsval
  suggestedUnit :: jsval
  quantity :: jsval
  userPrice :: jsval
  taxRate :: jsval

datatype Currency = EUR | BRL | USD

record QuoteFragment =
  title :: jsval
  summary :: jsval
  executionTime :: jsval
  paymentTerms :: jsval
  steps :: "QuoteStep list"
  currency :: Currency
  city :: jsstring

record QuoteData = QuoteFragment +
  id' :: jsstring
  date :: jsstring
  clientName :: jsstring
  clientAddress :: jsstring
  clientContact :: jsstring

section \<open>Totals (QuoteResult.tsx, QuoteHistory.tsx, App.tsx)\<close>

text \<open>
  \<open>reduce\<close> with an initial value is a left fold; an exception in the callback ends it.
  The three totals of \<open>QuoteResult\<close> (the \<open>useMemo\<close> block) read a field as
  \<open>Number(step.f || 0)\<close>.
\<close>

record Totals =
  subtotal :: jsnum
  totalTax :: jsnum
  grandTotal :: jsnum

definition totals :: "QuoteStep list \<Rightarrow> js_error + Totals" where
  "totals editedSteps =
     (let sub = foldl (\<lambda>acc step.
                   lift2 num_add acc
                     (lift2 num_mul (ToNumber (or_else (userPrice step) (JNum (Fin 0))))
                                    (ToNumber (or_else (quantity step) (JNum (Fin 0))))))
                 (Inr (Fin 0)) editedSteps;
          tax = foldl (\<lambda>acc step.
                   lift2 num_add acc
                     (lift2 num_mul
                        (lift2 num_mul (ToNumber (or_else (userPrice step) (JNum (Fin 0))))
                                       (ToNumber (or_else (quantity step) (JNum (Fin 0)))))
                        (lift1 (\<lambda>rate. num_div rate (Fin 100))
                               (ToNumber (or_else (taxRate step) (JNum (Fin 0)))))))
                 (Inr (Fin 0)) editedSteps
      in lift2 (\<lambda>sub tax. \<lparr>subtotal = sub, totalTax = tax, grandTotal = num_add sub tax\<rparr>)
               sub tax)"

text \<open>The totals of one step, shown beside it, read a field as \<open>Number(step.f) || 0\<close>.\<close>

definition lineTotal :: "QuoteStep \<Rightarrow> js_error + jsnum" where
  "lineTotal step =
     lift2 num_mul (lift1 (\<lambda>n. num_or n (Fin 0)) (ToNumber (userPrice step)))
                   (lift1 (\<lambda>n. num_or n (Fin 0)) (ToNumber (quantity step)))"

definition lineTotalWithTax :: "QuoteStep \<Rightarrow> js_error + jsnum" where
  "lineTotalWithTax step =
     lift2 num_mul (lineTotal step)
       (lift1 (\<lambda>n. num_add (Fin 1) (num_div (num_or n (Fin 0)) (Fin 100)))
              (ToNumber (taxRate step)))"

text \<open>
  The total that the history list shows for a saved quote (\<open>totalPrice\<close> in
  \<open>QuoteHistory\<close>): the quantity falls back to one, "for older quotes".
\<close>

definition totalPrice :: "QuoteStep list \<Rightarrow> js_error + jsnum" where
  "totalPrice quoteSteps =
     foldl (\<lambda>acc step.
        lift2 num_add acc
          (lift3 (\<lambda>price tax quantity.
                    num_mul (num_mul price quantity) (num_add (Fin 1) (num_div tax (Fin 100))))
             (lift1 (\<lambda>n. num_or n (Fin 0)) (ToNumber (userPrice step)))
             (lift1 (\<lambda>n. num_or n (Fin 0)) (ToNumber (taxRate step)))
             (lift1 (\<lambda>n. num_or n (Fin 1)) (ToNumber (quantity step)))))
       (Inr (Fin 0)) quoteSteps"

section \<open>Edit handlers (QuoteResult.tsx)\<close>













section \<open>Saved quotes (App.tsx)\<close>

datatype Page = Form | Loading | Result | History | View | Settings

record AppState =
  page :: Page
  savedQuotes :: "QuoteData list"

definition handleUpdateQuote :: "QuoteData \<Rightarrow> AppState \<Rightarrow> AppState" where
  "handleUpdateQuote updatedQuote st =
     st\<lparr>savedQuotes := map (\<lambda>q. if id' q = id' updatedQuote then updatedQuote else q)
                             (savedQuotes st),
        page := History\<rparr>"

text \<open>
  \<open>calculateTotal\<close> of \<open>App\<close>, which no code calls, computes the same total as the history
  list.
\<close>

definition calculateTotal :: "QuoteData \<Rightarrow> js_error + jsnum" where
  "calculateTotal quote =
     foldl (\<lambda>acc step.
        lift2 num_add acc
          (lift3 (\<lambda>price tax quantity.
                    num_mul (num_mul price quantity) (num_add (Fin 1) (num_div tax (Fin 100))))
             (lift1 (\<lambda>n. num_or n (Fin 0)) (ToNumber (userPrice step)))
             (lift1 (\<lambda>n. num_or n (Fin 0)) (ToNumber (taxRate step)))
             (lift1 (\<lambda>n. num_or n (Fin 1)) (ToNumber (quantity step)))))
       (Inr (Fin 0)) (steps quote)"

section \<open>Module initialisation (geminiService.ts)\<close>

text \<open>
  The environment of the module: \<open>process.env\<close> and \<open>import.meta.env\<close>, each \<open>None\<close> when
  the object (or its \<open>env\<close>) does not exist, else the variables it defines, which are
  strings.  A read of a variable that is not defined is \<open>undefined\<close>.
\<close>

record Env =
  process_env :: "(jsstring \<times> jsstring) list option"
  import_meta_env :: "(jsstring \<times> jsstring) list option"

definition env_var :: "(jsstring \<times> jsstring) list option \<Rightarrow> jsstring \<Rightarrow> jsval" where
  "env_var env k =
     (case env of
        None \<Rightarrow> JUndefined
      | Some vars \<Rightarrow> (case map_of vars k of None \<Rightarrow> JUndefined | Some v \<Rightarrow> JStr v))"

definition getApiKey :: "Env \<Rightarrow> jsval" where
  "getApiKey env =
     (if ToBoolean (env_var (process_env env) (js ''API_KEY''))
      then env_var (process_env env) (js ''API_KEY'')
      else if ToBoolean (env_var (import_meta_env env) (js ''VITE_API_KEY''))
      then env_var (import_meta_env env) (js ''VITE_API_KEY'')
      else JUndefined)"

text \<open>
  The statements that the module runs when it is loaded: they throw, or leave the client
  \<open>ai\<close> built from the key.
\<close>

record GoogleGenAI =
  apiKey :: jsval

definition module_init :: "Env \<Rightarrow> js_error + GoogleGenAI" where
  "module_init env =
     (let apiKey = getApiKey env in
      if \<not> ToBoolean apiKey then Inl Error_API_Key
      else Inr \<lparr>apiKey = apiKey\<rparr>)"

section \<open>The answer of the model (generateQuote in geminiService.ts)\<close>

text \<open>
  \<open>generateQuote\<close> sends one request to the model and turns the text of the answer
  into a quote.  The request is outside this development: the text of the answer,
  \<open>response.text\<close>, is the first argument of the model function.
\<close>

subsection \<open>The fenced block\<close>

text \<open>
  \<open>jsonText.match(/```(json)?\s*([\s\S]*?)\s*```/)\<close>, read as the backtracking matcher
  of ECMAScript does: the match starts at the first fence of the text; \<open>(json)?\<close> is
  greedy and takes the four letters when they follow; the first \<open>\s*\<close> is greedy and
  takes all the white space that follows; the group \<open>([\s\S]*?)\<close> is lazy and takes the
  shortest text after which white space and a fence follow.  No backtracking changes the
  result: the letters of \<open>json\<close> and white space are not backticks, so a closing fence
  that is found after giving some of them back is found without giving them back, and
  when no closing fence follows the first fence, none follows a later one.
  \<open>fence_match\<close> is the second group of the match, \<open>None\<close> when there is no match.
\<close>

definition fence :: jsstring where
  "fence = [0x60, 0x60, 0x60]"

fun after_fence :: "jsstring \<Rightarrow> jsstring option" where
  "after_fence [] = None"
| "after_fence (c # cs) =
     (if take 3 (c # cs) = fence then Some (drop 3 (c # cs)) else after_fence cs)"

definition closes :: "jsstring \<Rightarrow> bool" where
  "closes s \<longleftrightarrow> take 3 (dropWhile is_space s) = fence"

fun lazy_capture :: "jsstring \<Rightarrow> jsstring option" where
  "lazy_capture [] = None"
| "lazy_capture (c # cs) =
     (if closes (c # cs) then Some [] else map_option ((#) c) (lazy_capture cs))"

definition fence_match :: "jsstring \<Rightarrow> jsstring option" where
  "fence_match s =
     (case after_fence s of
        None \<Rightarrow> None
      | Some rest \<Rightarrow>
          lazy_capture
            (dropWhile is_space (if take 4 rest = js ''json'' then drop 4 rest else rest)))"

text \<open>
  Lines 111 to 115: the trimmed text, replaced by the second group of the match when
  there is a match and the group is not empty.
\<close>

definition json_text :: "jsstring \<Rightarrow> jsstring" where
  "json_text response_text =
     (let jsonText = trim response_text in
      case fence_match jsonText of
        None \<Rightarrow> jsonText
      | Some group2 \<Rightarrow> if group2 \<noteq> [] then group2 else jsonText)"

subsection \<open>JSON.parse\<close>

text \<open>
  The grammar of JSON: white space is the space, the tab, the line feed and the carriage
  return; a string has no control character and the escapes \<open>\" \\ \/ \b \f \n \r \t\<close>
  and \<open>\uXXXX\<close>; a number is \<open>-?(0|[1-9][0-9]*)(\.[0-9]+)?([eE][+-]?[0-9]+)?\<close>; when a key
  is repeated in an object, the last value stays at the place of the first.
\<close>

definition json_ws :: "jschar \<Rightarrow> bool" where
  "json_ws c \<longleftrightarrow> c = 0x20 \<or> c = 0x09 \<or> c = 0x0A \<or> c = 0x0D"

definition simple_escape :: "jschar \<Rightarrow> jschar option" where
  "simple_escape e =
     (if e = 0x22 then Some 0x22
      else if e = 0x5C then Some 0x5C
      else if e = 0x2F then Some 0x2F
      else if e = 0x62 then Some 0x08
      else if e = 0x66 then Some 0x0C
      else if e = 0x6E then Some 0x0A
      else if e = 0x72 then Some 0x0D
      else if e = 0x74 then Some 0x09
      else None)"

fun json_string :: "jsstring \<Rightarrow> (jsstring \<times> jsstring) option" where
  "json_string [] = None"
| "json_string (c # r) =
     (if c = 0x22 then Some ([], r)
      else if c = 0x5C then
        (case r of
           [] \<Rightarrow> None
         | e # r' \<Rightarrow>
             if e = 0x75 then
               (case r' of
                  h1 # h2 # h3 # h4 # r'' \<Rightarrow>
                    (case digits_val 16 [h1, h2, h3, h4] of
                       None \<Rightarrow> None
                     | Some n \<Rightarrow>
                         map_option (\<lambda>(s, t). (of_nat n # s, t)) (json_string r''))
                | _ \<Rightarrow> None)
             else
               (case simple_escape e of
                  None \<Rightarrow> None
                | Some x \<Rightarrow> map_option (\<lambda>(s, t). (x # s, t)) (json_string r')))
      else if c < 0x20 then None
      else map_option (\<lambda>(s, t). (c # s, t)) (json_string r))"

definition is_number_char :: "jschar \<Rightarrow> bool" where
  "is_number_char c \<longleftrightarrow>
     is_digit c \<or> c = 0x2B \<or> c = 0x2D \<or> c = 0x2E \<or> c = 0x65 \<or> c = 0x45"

definition json_number :: "jsstring \<Rightarrow> jsnum option" where
  "json_number tok =
     (let body = (case tok of [] \<Rightarrow> [] | c # r \<Rightarrow> if c = 0x2D then r else tok);
          ip = takeWhile is_digit body;
          r1 = dropWhile is_digit body
      in if (case ip of [] \<Rightarrow> True | c # r \<Rightarrow> c = 0x30 \<and> r \<noteq> []) then None
         else if (case r1 of [] \<Rightarrow> False | c # r \<Rightarrow> c = 0x2E \<and> takeWhile is_digit r = [])
         then None
         else str_decimal tok)"

fun obj_put :: "jsstring \<Rightarrow> jsval \<Rightarrow> (jsstring \<times> jsval) list \<Rightarrow> (jsstring \<times> jsval) list" where
  "obj_put k v [] = [(k, v)]"
| "obj_put k v ((k', v') # kvs) =
     (if k = k' then (k, v) # kvs else (k', v') # obj_put k v kvs)"

definition obj_of_members :: "(jsstring \<times> jsval) list \<Rightarrow> jsval" where
  "obj_of_members kvs = JObj (foldl (\<lambda>obj (k, v). obj_put k v obj) [] kvs)"

text \<open>
  The parser descends with fuel, the length of the text and one more: every call reads
  at least one code unit of what is left, so the fuel does not run out before the text
  (lemma \<open>JSON_parse_any_fuel\<close> below).
\<close>

fun json_value :: "nat \<Rightarrow> jsstring \<Rightarrow> (jsval \<times> jsstring) option"
  and json_elements :: "nat \<Rightarrow> jsstring \<Rightarrow> (jsval list \<times> jsstring) option"
  and json_members :: "nat \<Rightarrow> jsstring \<Rightarrow> ((jsstring \<times> jsval) list \<times> jsstring) option"
where
  "json_value 0 s = None"
| "json_value (Suc n) s =
     (case dropWhile json_ws s of
        [] \<Rightarrow> None
      | c # r \<Rightarrow>
          if c = 0x7B then
            (case dropWhile json_ws r of
               [] \<Rightarrow> None
             | d # r' \<Rightarrow>
                 if d = 0x7D then Some (JObj [], r')
                 else map_option (\<lambda>(kvs, t). (obj_of_members kvs, t)) (json_members n (d # r')))
          else if c = 0x5B then
            (case dropWhile json_ws r of
               [] \<Rightarrow> None
             | d # r' \<Rightarrow>
                 if d = 0x5D then Some (JArr [], r')
                 else map_option (\<lambda>(xs, t). (JArr xs, t)) (json_elements n (d # r')))
          else if c = 0x22 then map_option (\<lambda>(str, t). (JStr str, t)) (json_string r)
          else if take 4 (c # r) = js ''true'' then Some (JBool True, drop 4 (c # r))
          else if take 5 (c # r) = js ''false'' then Some (JBool False, drop 5 (c # r))
          else if take 4 (c # r) = js ''null'' then Some (JNull, drop 4 (c # r))
          else
            (case json_number (takeWhile is_number_char (c # r)) of
               None \<Rightarrow> None
             | Some x \<Rightarrow> Some (JNum x, dropWhile is_number_char (c # r))))"
| "json_elements 0 s = None"
| "json_elements (Suc n) s =
     (case json_value n s of
        None \<Rightarrow> None
      | Some (x, t) \<Rightarrow>
          (case dropWhile json_ws t of
             [] \<Rightarrow> None
           | c # r \<Rightarrow>
               if c = 0x5D then Some ([x], r)
               else if c = 0x2C then map_option (\<lambda>(xs, u). (x # xs, u)) (json_elements n r)
               else None))"
| "json_members 0 s = None"
| "json_members (Suc n) s =
     (case dropWhile json_ws s of
        [] \<Rightarrow> None
      | c # r \<Rightarrow>
          if c \<noteq> 0x22 then None
          else
            (case json_string r of
               None \<Rightarrow> None
             | Some (k, t) \<Rightarrow>
                 (case dropWhile json_ws t of
                    [] \<Rightarrow> None
                  | d # t' \<Rightarrow>
                      if d \<noteq> 0x3A then None
                      else
                        (case json_value n t' of
                           None \<Rightarrow> None
                         | Some (v, u) \<Rightarrow>
                             (case dropWhile json_ws u of
                                [] \<Rightarrow> None
                              | e # u' \<Rightarrow>
                                  if e = 0x7D then Some ([(k, v)], u')
                                  else if e = 0x2C then
                                    map_option (\<lambda>(kvs, w). ((k, v) # kvs, w)) (json_members n u')
                                  else None)))))"

definition JSON_parse :: "jsstring \<Rightarrow> js_error + jsval" where
  "JSON_parse text =
     (case json_value (Suc (length text)) text of
        None \<Rightarrow> Inl SyntaxError
      | Some (v, rest) \<Rightarrow> if dropWhile json_ws rest = [] then Inr v else Inl SyntaxError)"

subsection \<open>The quote of the parsed answer\<close>

text \<open>
  The function that \<open>parsedJson.steps.map\<close> applies to a step of the answer.  The first
  read, \<open>step.suggestedPrice\<close>, throws on \<open>null\<close> and \<open>undefined\<close>; then every other read
  succeeds.  \<open>Number(unitPrice)\<close> and \<open>Number(quantity)\<close> may throw.
\<close>

definition normalize_step :: "jsval \<Rightarrow> js_error + QuoteStep" where
  "normalize_step step =
     (case get_prop step (js ''suggestedPrice'') of
        Inl e \<Rightarrow> Inl e
      | Inr sp \<Rightarrow>
          let unitPrice = coalesce (coalesce (get_opt sp (js ''unitPrice'')) sp) (JNum (Fin 0));
              unit = get_opt sp (js ''unit'');
              quantity = coalesce (get_opt step (js ''suggestedQuantity'')) (JNum (Fin 1))
          in lift2 (\<lambda>price amount.
                     \<lparr>QuoteStep.title = get_opt step (js ''title''),
                      description = get_opt step (js ''description''),
                      suggestedPrice = JNum price,
                      suggestedUnit = unit,
                      quantity = JNum amount,
                      userPrice = JNum price,
                      taxRate = JNum (Fin 0)\<rparr>)
                   (ToNumber unitPrice) (ToNumber quantity))"

text \<open>\<open>map\<close> stops at the first step that throws.\<close>

fun map_steps :: "jsval list \<Rightarrow> js_error + QuoteStep list" where
  "map_steps [] = Inr []"
| "map_steps (x # xs) =
     (case normalize_step x of
        Inl e \<Rightarrow> Inl e
      | Inr s \<Rightarrow> (case map_steps xs of Inl e \<Rightarrow> Inl e | Inr ss \<Rightarrow> Inr (s # ss)))"

text \<open>
  Lines 119 to 145, the body of the \<open>try\<close> after \<open>JSON.parse\<close>: the quote when
  \<open>parsedJson.title\<close> is truthy and \<open>parsedJson.steps\<close> is an array, else the error of
  the unexpected format.
\<close>

definition quote_of_json :: "jsval \<Rightarrow> Currency \<Rightarrow> jsstring \<Rightarrow> js_error + QuoteFragment" where
  "quote_of_json parsedJson currency' city' =
     (case get_prop parsedJson (js ''title'') of
        Inl e \<Rightarrow> Inl e
      | Inr t \<Rightarrow>
          (case (ToBoolean t, get_opt parsedJson (js ''steps'')) of
             (True, JArr xs) \<Rightarrow>
               (case map_steps xs of
                  Inl e \<Rightarrow> Inl e
                | Inr stepsWithUserPrice \<Rightarrow>
                    Inr \<lparr>title = t,
                         summary = get_opt parsedJson (js ''summary''),
                         executionTime =
                           or_else (get_opt parsedJson (js ''executionTime'')) (JStr (js ''A definir'')),
                         paymentTerms =
                           or_else (get_opt parsedJson (js ''paymentTerms'')) (JStr (js ''A combinar'')),
                         steps = stepsWithUserPrice,
                         currency = currency',
                         city = city'\<rparr>)
           | _ \<Rightarrow> Inl Error_formato_esperado))"

text \<open>
  The \<open>try\<close> and its \<open>catch\<close>: whatever is thrown between \<open>response.text.trim()\<close> and
  the \<open>return\<close> is caught, logged, and replaced by the error of the invalid JSON.
\<close>

definition generateQuote :: "jsstring \<Rightarrow> Currency \<Rightarrow> jsstring \<Rightarrow> js_error + QuoteFragment" where
  "generateQuote response_text currency' city' =
     (case (case JSON_parse (json_text response_text) of
              Inl e \<Rightarrow> Inl e
            | Inr parsedJson \<Rightarrow> quote_of_json parsedJson currency' city') of
        Inl e \<Rightarrow> Inl Error_JSON_valido
      | Inr result \<Rightarrow> Inr result)"

section \<open>The specification's notions\<close>

text \<open>
  The definitions of this section follow the words of the specification, not the code;
  the theorems compare the two.
\<close>







text \<open>A credential is available: one of the two variables holds a non-empty key.\<close>

definition credential_available :: "Env \<Rightarrow> bool" where
  "credential_available env \<longleftrightarrow>
     (\<exists>vars k. process_env env = Some vars
         \<and> map_of vars (js ''API_KEY'') = Some k \<and> k \<noteq> [])
   \<or> (\<exists>vars k. import_meta_env env = Some vars
         \<and> map_of vars (js ''VITE_API_KEY'') = Some k \<and> k \<noteq> [])"

text \<open>
  The field of a parsed value: the property of an object, \<open>undefined\<close> anywhere else.  A
  field is present when it is neither \<open>undefined\<close> nor \<open>null\<close>.
\<close>

definition field :: "jsval \<Rightarrow> jsstring \<Rightarrow> jsval" where
  "field v k =
     (case v of
        JObj kvs \<Rightarrow> (case map_of kvs k of None \<Rightarrow> JUndefined | Some w \<Rightarrow> w)
      | _ \<Rightarrow> JUndefined)"

definition present :: "jsval \<Rightarrow> bool" where
  "present v \<longleftrightarrow> v \<noteq> JUndefined \<and> v \<noteq> JNull"

text \<open>
  The unit price of a step of the answer: the nested \<open>suggestedPrice.unitPrice\<close> if
  present, else the flat \<open>suggestedPrice\<close> if present, else 0.  Its quantity:
  \<open>suggestedQuantity\<close> if present, else 1.
\<close>

definition resolved_unit_price :: "jsval \<Rightarrow> jsval" where
  "resolved_unit_price step =
     (if present (field (field step (js ''suggestedPrice'')) (js ''unitPrice''))
      then field (field step (js ''suggestedPrice'')) (js ''unitPrice'')
      else if present (field step (js ''suggestedPrice''))
      then field step (js ''suggestedPrice'')
      else JNum (Fin 0))"

definition resolved_quantity :: "jsval \<Rightarrow> jsval" where
  "resolved_quantity step =
     (if present (field step (js ''suggestedQuantity''))
      then field step (js ''suggestedQuantity'')
      else JNum (Fin 1))"

text \<open>
  A payload in a fenced block: a fence, an optional tag, white space, the payload, white
  space, a fence.
\<close>

definition fenced :: "jsstring \<Rightarrow> jsstring \<Rightarrow> jsstring \<Rightarrow> jsstring \<Rightarrow> jsstring" where
  "fenced tag ws1 payload ws2 = fence @ tag @ ws1 @ payload @ ws2 @ fence"

text \<open>
  Every JSON text begins with a brace, a bracket, a quote, a minus sign, a digit or the
  first letter of \<open>true\<close>, \<open>false\<close> or \<open>null\<close>, and ends with a brace, a bracket, a quote,
  a digit or the last letter of one of the three words.
\<close>

definition json_first :: "jschar \<Rightarrow> bool" where
  "json_first c \<longleftrightarrow> c \<in> set (js ''{[-0123456789tfn'') \<or> c = 0x22"

definition json_last :: "jschar \<Rightarrow> bool" where
  "json_last c \<longleftrightarrow> c \<in> set (js ''}]0123456789el'') \<or> c = 0x22"

definition json_delimited :: "jsstring \<Rightarrow> bool" where
  "json_delimited t \<longleftrightarrow> t \<noteq> [] \<and> json_first (hd t) \<and> json_last (last t)"


section \<open>Example data\<close>

text \<open>The two steps of the specification's scenario, and a quote that holds them.\<close>

definition example_steps :: "QuoteStep list" where
  "example_steps =
     [\<lparr>QuoteStep.title = JStr (js ''A''), description = JStr (js ''a''),
       suggestedPrice = JNum (Fin 50), suggestedUnit = JUndefined,
       quantity = JNum (Fin 1), userPrice = JNum (Fin 50), taxRate = JNum (Fin 0)\<rparr>,
      \<lparr>QuoteStep.title = JStr (js ''B''), description = JStr (js ''b''),
       suggestedPrice = JNum (Fin 30), suggestedUnit = JUndefined,
       quantity = JNum (Fin 3), userPrice = JNum (Fin 30), taxRate = JNum (Fin 10)\<rparr>]"

definition example_quote :: QuoteData where
  "example_quote =
     \<lparr>title = JStr (js ''T''), summary = JStr (js ''S''),
      executionTime = JStr (js ''A definir''), paymentTerms = JStr (js ''A combinar''),
      steps = example_steps, currency = EUR, city = js ''Porto'',
      id' = js ''temp-1'', date = js ''2024-01-01'', clientName = js ''C'',
      clientAddress = js ''R'', clientContact = js ''9''\<rparr>"


definition legacy_step :: QuoteStep where
  "legacy_step =
     \<lparr>QuoteStep.title = JStr (js ''A''), description = JStr (js ''a''),
      suggestedPrice = JNum (Fin 5), suggestedUnit = JUndefined,
      quantity = JUndefined, userPrice = JNum (Fin 5), taxRate = JNum (Fin 20)\<rparr>"

text \<open>Two environments, and three saved quotes.\<close>

definition no_key_env :: Env where
  "no_key_env =
     \<lparr>process_env = None, import_meta_env = Some [(js ''MODE'', js ''production'')]\<rparr>"

definition vite_key_env :: Env where
  "vite_key_env =
     \<lparr>process_env = None, import_meta_env = Some [(js ''VITE_API_KEY'', js ''k1'')]\<rparr>"

definition saved_a :: QuoteData where
  "saved_a = example_quote\<lparr>id' := js ''a''\<rparr>"

definition saved_b :: QuoteData where
  "saved_b = example_quote\<lparr>id' := js ''b''\<rparr>"

definition edited_b :: QuoteData where
  "edited_b = saved_b\<lparr>clientName := js ''D''\<rparr>"

text \<open>Answers of the model.\<close>

definition null_step_text :: jsstring where
  \<open>null_step_text = js ''{"title":"T","steps":[null]}''\<close>

definition priced_text :: jsstring where
  \<open>priced_text = js ''{"title":"T","steps":[{"suggestedPrice":{"unitPrice":12.5,"unit":"m2"},"suggestedQuantity":3},{"suggestedPrice":7},{}]}''\<close>

definition no_steps_text :: jsstring where
  \<open>no_steps_text = js ''{"title":"T"}''\<close>

definition no_title_text :: jsstring where
  \<open>no_title_text = js ''{"steps":[]}''\<close>

definition malformed_text :: jsstring where
  \<open>malformed_text = js ''{"title":''\<close>

definition plain_payload :: jsstring where
  \<open>plain_payload = js '' {"title":"T","steps":[]} ''\<close>

definition backtick_payload :: jsstring where
  \<open>backtick_payload = js ''{"title":"a```b","steps":[]}''\<close>

definition tostring_text :: jsstring where
  \<open>tostring_text = js ''{"title":"T","steps":[{"suggestedPrice":{"toString":1}}]}''\<close>

section \<open>Properties\<close>

subsection \<open>Arithmetic and conversions\<close>



lemma num_add_zero_left: "num_add (Fin 0) a = a"
  by (cases a) auto

lemma lift_simps:
  "lift1 f (Inl e) = Inl e"
  "lift1 f (Inr x) = Inr (f x)"
  "lift2 g (Inl e) b = Inl e"
  "lift2 g (Inr x) (Inl e) = Inl e"
  "lift2 g (Inr x) (Inr y) = Inr (g x y)"
  "lift3 h (Inl e) b c = Inl e"
  "lift3 h (Inr x) (Inl e) c = Inl e"
  "lift3 h (Inr x) (Inr y) (Inl e) = Inl e"
  "lift3 h (Inr x) (Inr y) (Inr z) = Inr (h x y z)"
  by (simp_all add: lift1_def lift2_def lift3_def)





lemma num_or_Fin: "num_or (Fin a) d = (if a = 0 then d else Fin a)"
  by (simp add: num_or_def)

lemma nullish_falsy: "nullish v \<Longrightarrow> \<not> ToBoolean v"
  by (auto simp: nullish_def)






subsection \<open>Totals\<close>





lemma totals_step_cong:
  assumes "ToNumber (or_else (userPrice s) (JNum (Fin 0)))
             = ToNumber (or_else (userPrice s') (JNum (Fin 0)))"
    and "ToNumber (or_else (quantity s) (JNum (Fin 0)))
             = ToNumber (or_else (quantity s') (JNum (Fin 0)))"
    and "ToNumber (or_else (taxRate s) (JNum (Fin 0)))
             = ToNumber (or_else (taxRate s') (JNum (Fin 0)))"
  shows "totals (xs @ s # ys) = totals (xs @ s' # ys)"
  using assms by (simp add: totals_def Let_def)

lemma totalPrice_step_cong:
  assumes "ToNumber (userPrice s) = ToNumber (userPrice s')"
    and "lift1 (\<lambda>n. num_or n (Fin 1)) (ToNumber (quantity s))
           = lift1 (\<lambda>n. num_or n (Fin 1)) (ToNumber (quantity s'))"
    and "ToNumber (taxRate s) = ToNumber (taxRate s')"
  shows "totalPrice (xs @ s # ys) = totalPrice (xs @ s' # ys)"
  using assms by (simp add: totalPrice_def)




text \<open>
  Claim C6.  In the total of the history list, a step whose \<open>quantity\<close> is missing
  (\<open>undefined\<close> or \<open>null\<close>) or no number (\<open>Number(quantity)\<close> is \<open>NaN\<close>) counts as if its
  quantity were 1: alone it gives \<open>price * 1 * (1 + taxRate/100)\<close>.  The totals of the
  quote being edited, and the total of the line, count a missing quantity as 0.
\<close>

theorem history_quantity_default:
  assumes "nullish (quantity s) \<or> ToNumber (quantity s) = Inr NaN"
  shows "totalPrice (xs @ s # ys) = totalPrice (xs @ s\<lparr>quantity := JNum (Fin 1)\<rparr> # ys)
       \<and> totalPrice [s] =
           lift2 (\<lambda>price tax. num_mul (num_mul price (Fin 1))
                                       (num_add (Fin 1) (num_div tax (Fin 100))))
             (lift1 (\<lambda>n. num_or n (Fin 0)) (ToNumber (userPrice s)))
             (lift1 (\<lambda>n. num_or n (Fin 0)) (ToNumber (taxRate s)))
       \<and> (nullish (quantity s) \<longrightarrow>
            totals (xs @ s # ys) = totals (xs @ s\<lparr>quantity := JNum (Fin 0)\<rparr> # ys)
            \<and> lineTotal s = lineTotal (s\<lparr>quantity := JNum (Fin 0)\<rparr>))"
proof -
  have q: "lift1 (\<lambda>n. num_or n (Fin 1)) (ToNumber (quantity s)) = Inr (Fin 1)"
    using assms by (auto simp: nullish_def num_or_def lift_simps)
  have a: "totalPrice (xs @ s # ys) = totalPrice (xs @ s\<lparr>quantity := JNum (Fin 1)\<rparr> # ys)"
    by (rule totalPrice_step_cong) (simp_all add: q num_or_Fin lift_simps)
  have b: "totalPrice [s] =
           lift2 (\<lambda>price tax. num_mul (num_mul price (Fin 1))
                                       (num_add (Fin 1) (num_div tax (Fin 100))))
             (lift1 (\<lambda>n. num_or n (Fin 0)) (ToNumber (userPrice s)))
             (lift1 (\<lambda>n. num_or n (Fin 0)) (ToNumber (taxRate s)))"
    by (cases "ToNumber (userPrice s)"; cases "ToNumber (taxRate s)")
       (simp_all add: totalPrice_def q lift_simps num_add_zero_left)
  have c: "totals (xs @ s # ys) = totals (xs @ s\<lparr>quantity := JNum (Fin 0)\<rparr> # ys)"
    if "nullish (quantity s)"
    by (rule totals_step_cong) (simp_all add: or_else_def nullish_falsy [OF that])
  have d: "lineTotal s = lineTotal (s\<lparr>quantity := JNum (Fin 0)\<rparr>)" if "nullish (quantity s)"
    using that by (auto simp: lineTotal_def nullish_def num_or_def lift_simps)
  from a b c d show ?thesis by blast
qed

text \<open>
  The step saved without a quantity, at the price 5 with 20 percent of tax: the history
  list shows 6, the total for the quantity 1, and the editor shows 0, the total for the
  quantity 0.
\<close>

theorem history_quantity_default_witness:
  "nullish (quantity legacy_step)
   \<and> totalPrice [legacy_step] = Inr (Fin 6)
   \<and> totalPrice [legacy_step] = totalPrice [legacy_step\<lparr>quantity := JNum (Fin 1)\<rparr>]
   \<and> totals [legacy_step] = Inr \<lparr>subtotal = Fin 0, totalTax = Fin 0, grandTotal = Fin 0\<rparr>
   \<and> totals [legacy_step] = totals [legacy_step\<lparr>quantity := JNum (Fin 0)\<rparr>]
   \<and> lineTotalWithTax legacy_step = Inr (Fin 0)"
proof -
  have n: "nullish (quantity legacy_step)"
    by (simp add: legacy_step_def nullish_def)
  then have h: "nullish (quantity legacy_step) \<or> ToNumber (quantity legacy_step) = Inr NaN"
    by simp
  have v: "totalPrice [legacy_step] = Inr (Fin 6)"
    by (simp add: totalPrice_def legacy_step_def num_or_def lift_simps)
  have g: "totals [legacy_step] = Inr \<lparr>subtotal = Fin 0, totalTax = Fin 0, grandTotal = Fin 0\<rparr>"
    by (simp add: totals_def legacy_step_def or_else_def Let_def lift_simps)
  have l: "lineTotalWithTax legacy_step = Inr (Fin 0)"
    by (simp add: lineTotalWithTax_def lineTotal_def legacy_step_def num_or_def lift_simps)
  from history_quantity_default [OF h, of "[]" "[]"] n v g l show ?thesis by simp
qed

subsection \<open>Edit handlers\<close>

















subsection \<open>Saved quotes\<close>

text \<open>
  Claim C9.  Updating a saved quote keeps the length and the order of the list: at every
  position, the stored quote whose \<open>id\<close> is the updated quote's is replaced by the updated
  quote, and every other stored quote stays as it is.
\<close>

theorem update_saved_quote:
  "length (savedQuotes (handleUpdateQuote updatedQuote st)) = length (savedQuotes st)
   \<and> (\<forall>i < length (savedQuotes st).
        savedQuotes (handleUpdateQuote updatedQuote st) ! i =
          (if id' (savedQuotes st ! i) = id' updatedQuote then updatedQuote
           else savedQuotes st ! i))"
  by (simp add: handleUpdateQuote_def)

text \<open>Two saved quotes, the second of which is updated.\<close>

theorem update_saved_quote_witness:
  "savedQuotes (handleUpdateQuote edited_b \<lparr>page = View, savedQuotes = [saved_a, saved_b]\<rparr>)
     = [saved_a, edited_b]"
proof -
  let ?st = "\<lparr>page = View, savedQuotes = [saved_a, saved_b]\<rparr>"
  have ids: "id' saved_a \<noteq> id' edited_b" "id' saved_b = id' edited_b"
    by (simp_all add: saved_a_def saved_b_def edited_b_def js_def)
  from update_saved_quote [of edited_b ?st]
  have L: "length (savedQuotes (handleUpdateQuote edited_b ?st)) = 2"
    and N: "\<forall>i<2. savedQuotes (handleUpdateQuote edited_b ?st) ! i =
              (if id' ([saved_a, saved_b] ! i) = id' edited_b then edited_b
               else [saved_a, saved_b] ! i)"
    by simp_all
  from N ids have "savedQuotes (handleUpdateQuote edited_b ?st) ! 0 = saved_a"
    and "savedQuotes (handleUpdateQuote edited_b ?st) ! 1 = edited_b"
    by simp_all
  with L show ?thesis
    by (simp add: list_eq_iff_nth_eq less_Suc_eq numeral_2_eq_2)
qed

subsection \<open>Module initialisation\<close>

lemma env_var_truthy:
  "ToBoolean (env_var e k) \<longleftrightarrow> (\<exists>vars v. e = Some vars \<and> map_of vars k = Some v \<and> v \<noteq> [])"
  by (auto simp: env_var_def split: option.splits)

text \<open>
  Claim C8.  Without a credential, loading the module throws the error of the missing
  key, before any call of a generation function; with a credential, loading the module
  does not throw it and leaves the client built from a key.
\<close>

theorem startup_credential_check:
  "(\<not> credential_available env \<longrightarrow> module_init env = Inl Error_API_Key)
   \<and> (credential_available env \<longrightarrow> (\<exists>ai. module_init env = Inr ai \<and> ToBoolean (apiKey ai)))"
  unfolding credential_available_def env_var_truthy [symmetric]
  by (simp add: module_init_def getApiKey_def Let_def)

text \<open>An environment without a key, and one with \<open>VITE_API_KEY\<close>.\<close>

theorem startup_credential_check_witness:
  "\<not> credential_available no_key_env \<and> module_init no_key_env = Inl Error_API_Key
   \<and> credential_available vite_key_env
   \<and> module_init vite_key_env = Inr \<lparr>apiKey = JStr (js ''k1'')\<rparr>"
proof -
  have a: "\<not> credential_available no_key_env"
    by (simp add: credential_available_def no_key_env_def js_def)
  have b: "credential_available vite_key_env"
    by (simp add: credential_available_def vite_key_env_def js_def)
  have c: "module_init vite_key_env = Inr \<lparr>apiKey = JStr (js ''k1'')\<rparr>"
    by (simp add: module_init_def getApiKey_def env_var_def vite_key_env_def Let_def js_def)
  from startup_credential_check [of no_key_env] startup_credential_check [of vite_key_env] a b c
  show ?thesis by simp
qed

subsection \<open>The answer of the model\<close>

lemma get_opt_field: "get_opt v k = field v k"
  by (cases v) (simp_all add: get_opt_def field_def)

lemma get_prop_field: "\<not> nullish v \<Longrightarrow> get_prop v k = Inr (field v k)"
  by (cases v) (simp_all add: nullish_def field_def)

lemma coalesce_present: "coalesce v w = (if present v then v else w)"
  by (simp add: coalesce_def nullish_def present_def)

lemma converts_ToNumber: "converts v \<Longrightarrow> \<exists>n. ToNumber v = Inr n"
  by (cases v) simp_all

lemma normalize_step_ok:
  assumes "\<not> nullish x" and "converts (resolved_unit_price x)"
    and "converts (resolved_quantity x)"
  shows "\<exists>s p q. normalize_step x = Inr s
           \<and> ToNumber (resolved_unit_price x) = Inr p
           \<and> ToNumber (resolved_quantity x) = Inr q
           \<and> suggestedPrice s = JNum p \<and> userPrice s = JNum p
           \<and> quantity s = JNum q \<and> taxRate s = JNum (Fin 0)"
proof -
  from converts_ToNumber [OF assms(2)] obtain p
    where p: "ToNumber (resolved_unit_price x) = Inr p" by blast
  from converts_ToNumber [OF assms(3)] obtain q
    where q: "ToNumber (resolved_quantity x) = Inr q" by blast
  have u: "coalesce (coalesce (field (field x (js ''suggestedPrice'')) (js ''unitPrice''))
              (field x (js ''suggestedPrice''))) (JNum (Fin 0)) = resolved_unit_price x"
    by (simp add: coalesce_present resolved_unit_price_def)
  have a: "coalesce (field x (js ''suggestedQuantity'')) (JNum (Fin 1)) = resolved_quantity x"
    by (simp add: coalesce_present resolved_quantity_def)
  show ?thesis
    by (simp add: normalize_step_def get_prop_field [OF assms(1)] get_opt_field Let_def
        u a p q lift_simps)
qed

lemma map_steps_ok:
  assumes "\<forall>x \<in> set xs. \<not> nullish x \<and> converts (resolved_unit_price x)
             \<and> converts (resolved_quantity x)"
  shows "\<exists>ss. map_steps xs = Inr ss \<and> length ss = length xs
           \<and> (\<forall>i < length xs. \<exists>p q.
                 ToNumber (resolved_unit_price (xs ! i)) = Inr p
                 \<and> ToNumber (resolved_quantity (xs ! i)) = Inr q
                 \<and> suggestedPrice (ss ! i) = JNum p \<and> userPrice (ss ! i) = JNum p
                 \<and> quantity (ss ! i) = JNum q \<and> taxRate (ss ! i) = JNum (Fin 0))"
  using assms
proof (induction xs)
  case Nil
  then show ?case by simp
next
  case (Cons x xs)
  let ?ok = "\<lambda>x s. \<exists>p q. ToNumber (resolved_unit_price x) = Inr p
                 \<and> ToNumber (resolved_quantity x) = Inr q
                 \<and> suggestedPrice s = JNum p \<and> userPrice s = JNum p
                 \<and> quantity s = JNum q \<and> taxRate s = JNum (Fin 0)"
  from Cons.prems have "\<not> nullish x" "converts (resolved_unit_price x)"
    "converts (resolved_quantity x)"
    by simp_all
  from normalize_step_ok [OF this] obtain s
    where s: "normalize_step x = Inr s" "?ok x s"
    by blast
  from Cons obtain ss where ss: "map_steps xs = Inr ss" "length ss = length xs"
    "\<forall>i < length xs. ?ok (xs ! i) (ss ! i)"
    by auto
  have "map_steps (x # xs) = Inr (s # ss)" by (simp add: s(1) ss(1))
  moreover have "length (s # ss) = length (x # xs)" by (simp add: ss(2))
  moreover have "\<forall>i < length (x # xs). ?ok ((x # xs) ! i) ((s # ss) ! i)"
  proof (intro allI impI)
    fix i assume "i < length (x # xs)"
    then show "?ok ((x # xs) ! i) ((s # ss) ! i)"
      using s(2) ss(3) by (cases i) simp_all
  qed
  ultimately show ?case by blast
qed

lemma quote_of_json_ok:
  assumes "ToBoolean (field parsedJson (js ''title''))"
    and "field parsedJson (js ''steps'') = JArr xs"
    and "map_steps xs = Inr ss"
  shows "\<exists>frag. quote_of_json parsedJson currency' city' = Inr frag \<and> steps frag = ss"
proof -
  from assms(1) have "\<not> nullish parsedJson"
    by (auto simp: nullish_def field_def)
  from get_prop_field [OF this] assms show ?thesis
    by (simp add: quote_of_json_def get_opt_field)
qed

text \<open>
  Claim C2, amended.  For every answer that parses to a value with a truthy \<open>title\<close> and
  an array \<open>steps\<close>, where no step is \<open>null\<close> (or \<open>undefined\<close>) and \<open>Number\<close> converts the
  resolved unit price and quantity of every step without an exception, the parser
  returns a quote with as many steps as the array has, where at every position the
  suggested price is the number of the resolved unit price (the nested
  \<open>suggestedPrice.unitPrice\<close> if present, else the flat \<open>suggestedPrice\<close> if present,
  else 0), \<open>userPrice\<close> is that suggested price, \<open>quantity\<close> is the number of
  \<open>suggestedQuantity\<close> if present and else of 1, and \<open>taxRate\<close> is 0.
\<close>

theorem parsed_steps:
  assumes "JSON_parse (json_text response_text) = Inr parsedJson"
    and "ToBoolean (field parsedJson (js ''title''))"
    and "field parsedJson (js ''steps'') = JArr xs"
    and "\<forall>x \<in> set xs. \<not> nullish x \<and> converts (resolved_unit_price x)
           \<and> converts (resolved_quantity x)"
  shows "\<exists>frag. generateQuote response_text currency' city' = Inr frag
           \<and> length (steps frag) = length xs
           \<and> (\<forall>i < length xs. \<exists>p q.
                 ToNumber (resolved_unit_price (xs ! i)) = Inr p
                 \<and> ToNumber (resolved_quantity (xs ! i)) = Inr q
                 \<and> suggestedPrice (steps frag ! i) = JNum p
                 \<and> userPrice (steps frag ! i) = JNum p
                 \<and> quantity (steps frag ! i) = JNum q
                 \<and> taxRate (steps frag ! i) = JNum (Fin 0))"
proof -
  from map_steps_ok [OF assms(4)] obtain ss where ss: "map_steps xs = Inr ss"
    "length ss = length xs"
    "\<forall>i < length xs. \<exists>p q.
                 ToNumber (resolved_unit_price (xs ! i)) = Inr p
                 \<and> ToNumber (resolved_quantity (xs ! i)) = Inr q
                 \<and> suggestedPrice (ss ! i) = JNum p \<and> userPrice (ss ! i) = JNum p
                 \<and> quantity (ss ! i) = JNum q \<and> taxRate (ss ! i) = JNum (Fin 0)"
    by blast
  from quote_of_json_ok [OF assms(2,3) ss(1)] obtain frag
    where frag: "quote_of_json parsedJson currency' city' = Inr frag" "steps frag = ss"
    by blast
  have "generateQuote response_text currency' city' = Inr frag"
    by (simp add: generateQuote_def assms(1) frag(1))
  with frag(2) ss(2,3) show ?thesis by simp
qed

text \<open>
  Claim C2, as it is stated, fails.  Both answers below are valid JSON with a truthy
  \<open>title\<close> and an array \<open>steps\<close> of one step.  In the first the step is \<open>null\<close>, and the
  read \<open>step.suggestedPrice\<close> throws.  In the second the price is an object with a
  property \<open>toString\<close>, and \<open>Number\<close> throws on it.  The parser fails on both instead of
  returning one step.
\<close>

theorem null_step_counterexample:
  "JSON_parse (json_text null_step_text)
     = Inr (JObj [(js ''title'', JStr (js ''T'')), (js ''steps'', JArr [JNull])])
   \<and> ToBoolean (field (JObj [(js ''title'', JStr (js ''T'')), (js ''steps'', JArr [JNull])])
        (js ''title''))
   \<and> field (JObj [(js ''title'', JStr (js ''T'')), (js ''steps'', JArr [JNull])]) (js ''steps'')
        = JArr [JNull]
   \<and> generateQuote null_step_text EUR (js ''Porto'') = Inl Error_JSON_valido
   \<and> JSON_parse (json_text tostring_text)
       = Inr (JObj [(js ''title'', JStr (js ''T'')),
                    (js ''steps'', JArr [JObj [(js ''suggestedPrice'',
                                                 JObj [(js ''toString'', JNum (Fin 1))])]])])
   \<and> generateQuote tostring_text EUR (js ''Porto'') = Inl Error_JSON_valido"
  by code_simp

lemma parse_priced:
  "JSON_parse (json_text priced_text)
     = Inr (JObj [(js ''title'', JStr (js ''T'')),
                  (js ''steps'', JArr [
                     JObj [(js ''suggestedPrice'',
                              JObj [(js ''unitPrice'', JNum (Fin 12.5)), (js ''unit'', JStr (js ''m2''))]),
                           (js ''suggestedQuantity'', JNum (Fin 3))],
                     JObj [(js ''suggestedPrice'', JNum (Fin 7))],
                     JObj []])])"
  by code_simp

lemma priced_prices:
  "resolved_unit_price (JObj [(js ''suggestedPrice'',
        JObj [(js ''unitPrice'', JNum (Fin (25 / 2))), (js ''unit'', JStr (js ''m2''))]),
      (js ''suggestedQuantity'', JNum (Fin 3))]) = JNum (Fin (25 / 2))"
  "resolved_unit_price (JObj [(js ''suggestedPrice'', JNum (Fin 7))]) = JNum (Fin 7)"
  "resolved_unit_price (JObj []) = JNum (Fin 0)"
  "resolved_quantity (JObj [(js ''suggestedPrice'',
        JObj [(js ''unitPrice'', JNum (Fin (25 / 2))), (js ''unit'', JStr (js ''m2''))]),
      (js ''suggestedQuantity'', JNum (Fin 3))]) = JNum (Fin 3)"
  "resolved_quantity (JObj [(js ''suggestedPrice'', JNum (Fin 7))]) = JNum (Fin 1)"
  "resolved_quantity (JObj []) = JNum (Fin 1)"
  by (simp_all add: resolved_unit_price_def resolved_quantity_def field_def present_def js_def)

text \<open>
  An answer with three steps: a nested price with a quantity, a flat price, and neither.
\<close>

theorem parsed_steps_witness:
  "\<exists>frag. generateQuote priced_text EUR (js ''Porto'') = Inr frag
     \<and> length (steps frag) = 3
     \<and> userPrice (steps frag ! 0) = JNum (Fin 12.5)
     \<and> userPrice (steps frag ! 1) = JNum (Fin 7)
     \<and> userPrice (steps frag ! 2) = JNum (Fin 0)
     \<and> quantity (steps frag ! 0) = JNum (Fin 3)
     \<and> quantity (steps frag ! 1) = JNum (Fin 1)
     \<and> quantity (steps frag ! 2) = JNum (Fin 1)
     \<and> taxRate (steps frag ! 0) = JNum (Fin 0)"
proof -
  let ?x0 = "JObj [(js ''suggestedPrice'',
        JObj [(js ''unitPrice'', JNum (Fin 12.5)), (js ''unit'', JStr (js ''m2''))]),
      (js ''suggestedQuantity'', JNum (Fin 3))]"
  let ?x1 = "JObj [(js ''suggestedPrice'', JNum (Fin 7))]"
  let ?x2 = "JObj []"
  let ?xs = "[?x0, ?x1, ?x2]"
  let ?v = "JObj [(js ''title'', JStr (js ''T'')), (js ''steps'', JArr ?xs)]"
  have t: "ToBoolean (field ?v (js ''title''))"
    by (simp add: field_def js_def)
  have s: "field ?v (js ''steps'') = JArr ?xs"
    by (simp add: field_def js_def)
  have n: "\<forall>x \<in> set ?xs. \<not> nullish x \<and> converts (resolved_unit_price x)
              \<and> converts (resolved_quantity x)"
    by (simp add: nullish_def priced_prices)
  from parsed_steps [OF parse_priced t s n, of EUR "js ''Porto''"]
  obtain frag where f: "generateQuote priced_text EUR (js ''Porto'') = Inr frag"
    "length (steps frag) = length ?xs"
    "\<forall>i < length ?xs. \<exists>p q.
         ToNumber (resolved_unit_price (?xs ! i)) = Inr p
         \<and> ToNumber (resolved_quantity (?xs ! i)) = Inr q
         \<and> suggestedPrice (steps frag ! i) = JNum p
         \<and> userPrice (steps frag ! i) = JNum p
         \<and> quantity (steps frag ! i) = JNum q
         \<and> taxRate (steps frag ! i) = JNum (Fin 0)"
    by blast
  have s0: "userPrice (steps frag ! 0) = JNum (Fin (25 / 2))"
    "quantity (steps frag ! 0) = JNum (Fin 3)" "taxRate (steps frag ! 0) = JNum (Fin 0)"
    using f(3) [rule_format, of 0] by (auto simp: priced_prices)
  have s1: "userPrice (steps frag ! 1) = JNum (Fin 7)"
    "quantity (steps frag ! 1) = JNum (Fin 1)"
    using f(3) [rule_format, of 1] by (auto simp: priced_prices)
  have s2: "userPrice (steps frag ! 2) = JNum (Fin 0)"
    "quantity (steps frag ! 2) = JNum (Fin 1)"
    using f(3) [rule_format, of 2] by (auto simp: priced_prices)
  from f(1,2) s0 s1 s2 show ?thesis by simp
qed

lemma generateQuote_never_shape_error:
  "generateQuote response_text currency' city' \<noteq> Inl Error_formato_esperado"
  by (simp add: generateQuote_def split: sum.splits)

lemma shape_examples:
  "JSON_parse (json_text no_steps_text) = Inr (JObj [(js ''title'', JStr (js ''T''))])"
  "quote_of_json (JObj [(js ''title'', JStr (js ''T''))]) EUR (js ''Porto'')
     = Inl Error_formato_esperado"
  "generateQuote no_steps_text EUR (js ''Porto'') = Inl Error_JSON_valido"
  "JSON_parse (json_text no_title_text) = Inr (JObj [(js ''steps'', JArr [])])"
  "quote_of_json (JObj [(js ''steps'', JArr [])]) EUR (js ''Porto'')
     = Inl Error_formato_esperado"
  "generateQuote no_title_text EUR (js ''Porto'') = Inl Error_JSON_valido"
  "JSON_parse (json_text malformed_text) = Inl SyntaxError"
  "generateQuote malformed_text EUR (js ''Porto'') = Inl Error_JSON_valido"
  by code_simp+

text \<open>
  Claim C3.  The code does not do what the claim says: the error of the unexpected format
  is thrown inside the \<open>try\<close> whose \<open>catch\<close> replaces every exception, so
  \<open>generateQuote\<close> never fails with it.  An answer that is valid JSON without \<open>steps\<close>, or
  without \<open>title\<close>, fails with the error of the invalid JSON, the same as an answer that
  is no JSON.
\<close>

theorem shape_error_masked:
  "generateQuote response_text currency' city' \<noteq> Inl Error_formato_esperado
   \<and> JSON_parse (json_text no_steps_text) = Inr (JObj [(js ''title'', JStr (js ''T''))])
   \<and> quote_of_json (JObj [(js ''title'', JStr (js ''T''))]) EUR (js ''Porto'')
       = Inl Error_formato_esperado
   \<and> generateQuote no_steps_text EUR (js ''Porto'') = Inl Error_JSON_valido
   \<and> JSON_parse (json_text no_title_text) = Inr (JObj [(js ''steps'', JArr [])])
   \<and> quote_of_json (JObj [(js ''steps'', JArr [])]) EUR (js ''Porto'')
       = Inl Error_formato_esperado
   \<and> generateQuote no_title_text EUR (js ''Porto'') = Inl Error_JSON_valido
   \<and> JSON_parse (json_text malformed_text) = Inl SyntaxError
   \<and> generateQuote malformed_text EUR (js ''Porto'') = Inl Error_JSON_valido"
  using generateQuote_never_shape_error shape_examples by blast

lemma backtick_not_space: "\<not> is_space 0x60"
  by (simp add: is_space_def)

lemma json_first_facts: "json_first c \<Longrightarrow> \<not> is_space c \<and> c \<noteq> 0x6A \<and> c \<noteq> 0x60"
  by (auto simp: json_first_def js_def is_space_def)

lemma json_last_facts: "json_last c \<Longrightarrow> \<not> is_space c \<and> c \<noteq> 0x60"
  by (auto simp: json_last_def js_def is_space_def)

lemma trim_split:
  "s = takeWhile is_space s @ trim s @ rev (takeWhile is_space (rev (dropWhile is_space s)))"
proof -
  let ?a = "dropWhile is_space s"
  have "rev ?a = takeWhile is_space (rev ?a) @ dropWhile is_space (rev ?a)"
    by simp
  then have "?a = rev (dropWhile is_space (rev ?a)) @ rev (takeWhile is_space (rev ?a))"
    by (metis rev_append rev_rev_ident)
  then have "?a = trim s @ rev (takeWhile is_space (rev ?a))"
    by (simp add: trim_def)
  moreover have "s = takeWhile is_space s @ ?a" by simp
  ultimately show ?thesis by metis
qed

lemma trim_idem_ends:
  assumes "s \<noteq> []" and "\<not> is_space (hd s)" and "\<not> is_space (last s)"
  shows "trim s = s"
proof -
  from assms(1,2) have a: "dropWhile is_space s = s"
    by (cases s) simp_all
  obtain x xs where r: "rev s = x # xs"
    using assms(1) by (cases "rev s") simp_all
  then have "x = last s"
    using assms(1) by (metis hd_rev list.sel(1))
  with assms(3) have "\<not> is_space x" by simp
  then have "dropWhile is_space (x # xs) = x # xs" by simp
  then have "dropWhile is_space (rev s) = rev s" unfolding r .
  with a show ?thesis by (simp add: trim_def)
qed

lemma after_fence_prefix: "after_fence (fence @ x) = Some x"
  by (simp add: fence_def)

lemma after_fence_append: "after_fence (a @ u) = None \<Longrightarrow> after_fence u = None"
proof (induction a)
  case Nil
  then show ?case by simp
next
  case (Cons c a)
  then show ?case by (cases "take 3 (c # a @ u) = fence") (simp_all del: take_Suc_Cons)
qed

lemma no_fence_not_closing:
  assumes "u \<noteq> []" and "after_fence u = None" and "last u \<noteq> 0x60"
  shows "take 3 (u @ r) \<noteq> fence"
proof (cases u)
  case Nil
  with assms(1) show ?thesis by simp
next
  case (Cons a u1)
  show ?thesis
  proof (cases u1)
    case Nil
    with Cons assms(3) show ?thesis by (auto simp: fence_def)
  next
    case (Cons b u2)
    note c2 = this
    show ?thesis
    proof (cases u2)
      case Nil
      with c2 \<open>u = a # u1\<close> assms(3) show ?thesis by (auto simp: fence_def)
    next
      case (Cons c u3)
      with c2 \<open>u = a # u1\<close> assms(2) show ?thesis
        by (auto simp: fence_def split: if_splits)
    qed
  qed
qed

lemma lazy_capture_payload:
  assumes "after_fence t = None"
    and "t = [] \<or> (\<not> is_space (last t) \<and> last t \<noteq> 0x60)"
    and "\<forall>c \<in> set w. is_space c"
  shows "lazy_capture (t @ w @ fence) = Some t"
  using assms(1,2)
proof (induction t)
  case Nil
  have "dropWhile is_space (w @ fence) = fence"
    using assms(3) by (simp add: dropWhile_append2 fence_def backtick_not_space)
  then have "closes (w @ fence)" by (simp add: closes_def fence_def)
  moreover obtain c cs where "w @ fence = c # cs"
    by (cases "w @ fence") (simp_all add: fence_def)
  ultimately show ?case by simp
next
  case (Cons c t)
  from Cons.prems(2) have last: "\<not> is_space (last (c # t))" "last (c # t) \<noteq> 0x60"
    by simp_all
  have nf: "after_fence t = None"
    using Cons.prems(1) after_fence_append [of "[c]" t] by simp
  have tl: "t = [] \<or> (\<not> is_space (last t) \<and> last t \<noteq> 0x60)"
    using last by (cases t) simp_all
  let ?u = "dropWhile is_space (c # t)"
  have mem: "last (c # t) \<in> set (c # t)" by (rule last_in_set) simp
  have u_ne: "?u \<noteq> []"
    using last(1) mem by (metis dropWhile_eq_Nil_conv)
  have split: "c # t = takeWhile is_space (c # t) @ ?u" by simp
  have u_last: "last ?u = last (c # t)"
    using u_ne split by (metis last_appendR)
  have u_nf: "after_fence ?u = None"
    using Cons.prems(1) split after_fence_append by metis
  have dw: "dropWhile is_space ((c # t) @ w @ fence) = ?u @ w @ fence"
    using last(1) mem by (metis dropWhile_append1)
  have "last ?u \<noteq> 0x60"
    unfolding u_last by (rule last(2))
  then have nt: "take 3 (?u @ w @ fence) \<noteq> fence"
    by (rule no_fence_not_closing [OF u_ne u_nf])
  have "\<not> closes ((c # t) @ w @ fence)"
    unfolding closes_def dw by (rule nt)
  then have nc: "\<not> closes (c # t @ w @ fence)"
    by simp
  show ?case
    by (simp only: append_Cons lazy_capture.simps nc if_False Cons.IH [OF nf tl] option.map)
qed

lemma take4_json:
  assumes "x \<noteq> []" and "hd x \<noteq> 0x6A"
  shows "take 4 (x @ y) \<noteq> js ''json''"
  using assms by (cases x) (auto simp: js_def)

lemma json_text_plain:
  assumes "after_fence (trim payload) = None"
  shows "json_text payload = trim payload"
  using assms by (simp add: json_text_def fence_match_def Let_def)

lemma json_text_fenced:
  assumes tag: "tag = [] \<or> tag = js ''json''"
    and ws1: "\<forall>c \<in> set ws1. is_space c" and ws2: "\<forall>c \<in> set ws2. is_space c"
    and nf: "after_fence (trim payload) = None"
    and jd: "json_delimited (trim payload)"
  shows "json_text (fenced tag ws1 payload ws2) = trim payload"
proof -
  let ?t = "trim payload"
  let ?lead = "takeWhile is_space payload"
  let ?trail = "rev (takeWhile is_space (rev (dropWhile is_space payload)))"
  let ?w = "?trail @ ws2"
  from jd have t_ne: "?t \<noteq> []" and first: "json_first (hd ?t)" and last: "json_last (last ?t)"
    by (simp_all add: json_delimited_def)
  have payload: "payload = ?lead @ ?t @ ?trail" by (rule trim_split)
  have lead: "\<forall>c \<in> set (ws1 @ ?lead). is_space c"
    using ws1 by (auto dest: set_takeWhileD)
  have w: "\<forall>c \<in> set ?w. is_space c"
    using ws2 by (auto dest: set_takeWhileD)
  have body: "ws1 @ payload @ ws2 @ fence = (ws1 @ ?lead) @ ?t @ ?w @ fence"
    using payload by (metis append.assoc)
  have trimmed: "trim (fenced tag ws1 payload ws2) = fenced tag ws1 payload ws2"
    by (rule trim_idem_ends) (simp_all add: fenced_def fence_def backtick_not_space)
  have after: "after_fence (fenced tag ws1 payload ws2) = Some (tag @ ws1 @ payload @ ws2 @ fence)"
    by (simp add: fenced_def after_fence_prefix)
  have notjson: "take 4 (ws1 @ payload @ ws2 @ fence) \<noteq> js ''json''"
  proof (cases "ws1 @ ?lead")
    case Nil
    have neq: "take 4 (?t @ ?w @ fence) \<noteq> js ''json''"
      by (rule take4_json [OF t_ne]) (use json_first_facts [OF first] in blast)
    have eq: "ws1 @ payload @ ws2 @ fence = ?t @ ?w @ fence"
      using body by (simp only: Nil append_Nil)
    show ?thesis unfolding eq by (rule neq)
  next
    case (Cons c cs)
    with lead have "is_space c" by simp
    then have "c \<noteq> 0x6A" by (auto simp: is_space_def)
    then have neq: "take 4 (c # (cs @ ?t @ ?w @ fence)) \<noteq> js ''json''"
      by (simp add: js_def)
    have eq: "ws1 @ payload @ ws2 @ fence = c # (cs @ ?t @ ?w @ fence)"
      using body by (simp only: Cons append_Cons)
    show ?thesis unfolding eq by (rule neq)
  qed
  have strip: "(if take 4 (tag @ ws1 @ payload @ ws2 @ fence) = js ''json''
               then drop 4 (tag @ ws1 @ payload @ ws2 @ fence)
               else tag @ ws1 @ payload @ ws2 @ fence) = ws1 @ payload @ ws2 @ fence"
    using tag notjson by (auto simp: js_def)
  have "dropWhile is_space ((ws1 @ ?lead) @ ?t @ ?w @ fence) = dropWhile is_space (?t @ ?w @ fence)"
    using lead by (simp only: dropWhile_append2) 
  also have "\<dots> = ?t @ ?w @ fence"
    using t_ne json_first_facts [OF first] by (cases ?t) simp_all
  finally have dw: "dropWhile is_space (ws1 @ payload @ ws2 @ fence) = ?t @ ?w @ fence"
    unfolding body .
  have cap: "lazy_capture (?t @ ?w @ fence) = Some ?t"
    by (rule lazy_capture_payload [OF nf _ w]) (use json_last_facts [OF last] in simp)
  have fm: "fence_match (fenced tag ws1 payload ws2) = Some ?t"
    by (simp only: fence_match_def after option.case strip dw cap)
  show ?thesis
    by (simp add: json_text_def trimmed fm t_ne Let_def)
qed

subsection \<open>The shape of a JSON text\<close>

text \<open>
  What the parser reads of a text: a string up to its closing quote, a number that begins
  with a minus sign or a digit and ends with a digit, a value that begins and ends as
  \<open>json_first\<close> and \<open>json_last\<close> say, the elements of an array up to its closing bracket
  and the members of an object up to its closing brace.
\<close>

lemma json_string_consumes:
  "json_string s = Some (str, r) \<Longrightarrow> \<exists>p. s = p @ 0x22 # r"
proof (induction s arbitrary: str r rule: length_induct)
  case (1 s)
  show ?case
  proof (cases s)
    case Nil
    with 1(2) show ?thesis by simp
  next
    case (Cons c t)
    note s = this
    show ?thesis
    proof (cases "c = 0x22")
      case True
      with 1(2) s show ?thesis by auto
    next
      case q: False
      show ?thesis
      proof (cases "c = 0x5C")
        case False
        with q 1(2) s obtain str' where "json_string t = Some (str', r)"
          by (auto split: if_splits)
        with 1(1) s obtain p where "t = p @ 0x22 # r" by fastforce
        with s have "s = (c # p) @ 0x22 # r" by simp
        then show ?thesis by blast
      next
        case True
        with q 1(2) s obtain e t' where t: "t = e # t'"
          by (cases t) auto
        show ?thesis
        proof (cases "e = 0x75")
          case False
          with True q 1(2) s t obtain str' where "json_string t' = Some (str', r)"
            by (auto split: option.splits)
          with 1(1) s t obtain p where "t' = p @ 0x22 # r" by fastforce
          with s t have "s = (c # e # p) @ 0x22 # r" by simp
          then show ?thesis by blast
        next
          case u: True
          with True q 1(2) s t obtain h1 h2 h3 h4 t'' str'
            where t': "t' = h1 # h2 # h3 # h4 # t''" and "json_string t'' = Some (str', r)"
            by (auto split: list.splits option.splits)
          with 1(1) s t obtain p where "t'' = p @ 0x22 # r" by fastforce
          with s t t' have "s = (c # e # h1 # h2 # h3 # h4 # p) @ 0x22 # r" by simp
          then show ?thesis by blast
        qed
      qed
    qed
  qed
qed

lemma digit_of_10: "digit_of 10 c = Some d \<Longrightarrow> is_digit c"
  by (auto simp: digit_of_def is_digit_def Let_def split: if_splits)

lemma digits_acc_10: "digits_acc 10 a ds = Some n \<Longrightarrow> \<forall>c \<in> set ds. is_digit c"
  by (induction ds arbitrary: a) (auto split: option.splits dest: digit_of_10)

lemma digits_val_10: "digits_val 10 ds = Some n \<Longrightarrow> ds \<noteq> [] \<and> (\<forall>c \<in> set ds. is_digit c)"
  by (auto simp: digits_val_def dest: digits_acc_10 split: if_splits)

lemma exponent_part_last:
  assumes "exponent_part r = Some e" and "r \<noteq> []"
  shows "is_digit (last r)"
proof -
  from assms obtain c ds where "r = c # ds" "ds \<noteq> []" "is_digit (last ds)"
    by (cases r) (auto simp: exponent_part_def split: list.splits if_splits
        dest!: digits_val_10)
  then show ?thesis by simp
qed

lemma all_digits_last: "xs \<noteq> [] \<Longrightarrow> \<forall>c \<in> set xs. is_digit c \<Longrightarrow> is_digit (last xs)"
  by simp

lemma unsigned_decimal_last:
  assumes sd: "str_unsigned_decimal body = Some y"
    and ip: "takeWhile is_digit body \<noteq> []"
    and dot: "\<not> (case dropWhile is_digit body of [] \<Rightarrow> False
                  | c # r \<Rightarrow> c = 0x2E \<and> takeWhile is_digit r = [])"
  shows "is_digit (last body)"
proof -
  have ne: "body \<noteq> []" using ip by auto
  have notinf: "body \<noteq> js ''Infinity''"
    using ip by (auto simp: js_def is_digit_def)
  have split: "last body = last (takeWhile is_digit body @ dropWhile is_digit body)"
    by simp
  show ?thesis
  proof (cases "dropWhile is_digit body")
    case Nil
    then have "\<forall>c \<in> set body. is_digit c" by simp
    with ne show ?thesis by (rule all_digits_last)
  next
    case (Cons c r)
    have lb: "last body = last (c # r)"
      unfolding split Cons by simp
    show ?thesis
    proof (cases "c = 0x2E")
      case True
      with dot Cons have fp: "takeWhile is_digit r \<noteq> []" by simp
      then have rne: "r \<noteq> []" by auto
      from sd notinf Cons True obtain e where e: "exponent_part (dropWhile is_digit r) = Some e"
        by (auto simp: str_unsigned_decimal_def Let_def split: if_splits option.splits)
      have lr: "last body = last (takeWhile is_digit r @ dropWhile is_digit r)"
        unfolding lb using rne by simp
      show ?thesis
      proof (cases "dropWhile is_digit r = []")
        case True
        then have "\<forall>c \<in> set r. is_digit c" by simp
        with rne have "is_digit (last r)" by (rule all_digits_last)
        with lb rne show ?thesis by simp
      next
        case False
        from exponent_part_last [OF e False] have d: "is_digit (last (dropWhile is_digit r))" .
        have a: "last (takeWhile is_digit r @ dropWhile is_digit r) = last (dropWhile is_digit r)"
          using False by (rule last_appendR)
        show ?thesis unfolding lr a by (rule d)
      qed
    next
      case False
      with sd notinf Cons obtain e where "exponent_part (c # r) = Some e"
        by (auto simp: str_unsigned_decimal_def Let_def split: if_splits option.splits)
      from exponent_part_last [OF this] show ?thesis unfolding lb by simp
    qed
  qed
qed

lemma json_number_shape:
  assumes "json_number tok = Some x"
  shows "tok \<noteq> [] \<and> (hd tok = 0x2D \<or> is_digit (hd tok)) \<and> is_digit (last tok)"
proof (cases tok)
  case Nil
  with assms show ?thesis by (simp add: json_number_def)
next
  case (Cons c r)
  show ?thesis
  proof (cases "c = 0x2D")
    case True
    with assms Cons have ip: "takeWhile is_digit r \<noteq> []"
      and dot: "\<not> (case dropWhile is_digit r of [] \<Rightarrow> False
                  | c # r \<Rightarrow> c = 0x2E \<and> takeWhile is_digit r = [])"
      and "str_decimal (c # r) = Some x"
      by (auto simp: json_number_def Let_def split: if_splits list.splits)
    with True obtain y where "str_unsigned_decimal r = Some y"
      by (auto simp: str_decimal_def)
    from unsigned_decimal_last [OF this ip dot] have "is_digit (last r)" .
    moreover have "r \<noteq> []" using ip by auto
    ultimately show ?thesis unfolding Cons using True by simp
  next
    case False
    with assms Cons have ip: "takeWhile is_digit (c # r) \<noteq> []"
      and dot: "\<not> (case dropWhile is_digit (c # r) of [] \<Rightarrow> False
                  | c # r \<Rightarrow> c = 0x2E \<and> takeWhile is_digit r = [])"
      and sd: "str_decimal (c # r) = Some x"
      by (auto simp: json_number_def Let_def split: if_splits list.splits)
    from ip have d: "is_digit c" by (auto split: if_splits)
    then have "c \<noteq> 0x2B" by (auto simp: is_digit_def)
    with sd False have "str_unsigned_decimal (c # r) = Some x"
      by (auto simp: str_decimal_def)
    from unsigned_decimal_last [OF this ip dot] d show ?thesis unfolding Cons by simp
  qed
qed

lemma digit_cases:
  assumes "is_digit c"
  shows "c \<in> set (js ''0123456789'')"
proof -
  from assms have "48 \<le> unat c" and "unat c \<le> 57"
    by (simp_all add: is_digit_def word_le_nat_alt)
  then have "unat c \<in> {48, 49, 50, 51, 52, 53, 54, 55, 56, 57}"
    by simp arith
  then have "word_of_nat (unat c) \<in> (word_of_nat ` {48, 49, 50, 51, 52, 53, 54, 55, 56, 57} :: jschar set)"
    by (rule imageI)
  then show ?thesis
    by (simp add: js_def)
qed

lemma digit_first_last: "is_digit c \<Longrightarrow> json_first c \<and> json_last c"
  using digit_cases [of c] by (auto simp: json_first_def json_last_def js_def)

lemma json_ws_space: "json_ws c \<Longrightarrow> is_space c"
  by (auto simp: json_ws_def is_space_def)

lemma suffix_of_dropWhile: "dropWhile P s = t \<Longrightarrow> suffix t s"
  using suffix_dropWhile [of P s] by simp

lemma json_string_suffix: "json_string s = Some (str, r) \<Longrightarrow> suffix (0x22 # r) s"
  using json_string_consumes [of s str r] by (auto simp: suffix_def)

lemma closed_by:
  assumes "suffix (e # r) r0" and "json_last e"
  shows "\<exists>p. c # r0 = p @ r \<and> p \<noteq> [] \<and> json_last (last p)"
proof -
  from assms(1) obtain q where "r0 = q @ e # r" by (auto simp: suffix_def)
  then have "c # r0 = (c # q @ [e]) @ r" by simp
  moreover have "json_last (last (c # q @ [e]))" using assms(2) by simp
  ultimately show ?thesis by blast
qed

lemma json_consumes:
  "(\<forall>s v r. json_value n s = Some (v, r) \<longrightarrow>
      json_first (hd (dropWhile json_ws s))
      \<and> (\<exists>p. dropWhile json_ws s = p @ r \<and> p \<noteq> [] \<and> json_last (last p)))
   \<and> (\<forall>s xs r. json_elements n s = Some (xs, r) \<longrightarrow> suffix (0x5D # r) s)
   \<and> (\<forall>s kvs r. json_members n s = Some (kvs, r) \<longrightarrow> suffix (0x7D # r) s)"
proof (induction n)
  case 0
  show ?case by simp
next
  case (Suc n)
  then have IHv: "\<And>s v r. json_value n s = Some (v, r) \<Longrightarrow>
        \<exists>p. dropWhile json_ws s = p @ r \<and> p \<noteq> [] \<and> json_last (last p)"
    and IHe: "\<And>s xs r. json_elements n s = Some (xs, r) \<Longrightarrow> suffix (0x5D # r) s"
    and IHm: "\<And>s kvs r. json_members n s = Some (kvs, r) \<Longrightarrow> suffix (0x7D # r) s"
    by blast+
  have IHs: "suffix r s" if "json_value n s = Some (v, r)" for s v r
  proof -
    from IHv [OF that] obtain p where "dropWhile json_ws s = p @ r" by blast
    then have "suffix r (dropWhile json_ws s)" by (simp add: suffix_def)
    then show ?thesis using suffix_dropWhile suffix_order.trans by blast
  qed
  have V: "json_first (hd (dropWhile json_ws s))
      \<and> (\<exists>p. dropWhile json_ws s = p @ r \<and> p \<noteq> [] \<and> json_last (last p))"
    if a: "json_value (Suc n) s = Some (v, r)" for s v r
  proof -
    from a obtain c r0 where d: "dropWhile json_ws s = c # r0"
      by (auto split: list.splits)
    consider (obj) "c = 0x7B"
      | (arr) "c \<noteq> 0x7B" "c = 0x5B"
      | (str) "c \<noteq> 0x7B" "c \<noteq> 0x5B" "c = 0x22"
      | (tr) "c \<noteq> 0x7B" "c \<noteq> 0x5B" "c \<noteq> 0x22" "take 4 (c # r0) = js ''true''"
      | (fa) "c \<noteq> 0x7B" "c \<noteq> 0x5B" "c \<noteq> 0x22" "take 4 (c # r0) \<noteq> js ''true''"
          "take 5 (c # r0) = js ''false''"
      | (nu) "c \<noteq> 0x7B" "c \<noteq> 0x5B" "c \<noteq> 0x22" "take 4 (c # r0) \<noteq> js ''true''"
          "take 5 (c # r0) \<noteq> js ''false''" "take 4 (c # r0) = js ''null''"
      | (num) "c \<noteq> 0x7B" "c \<noteq> 0x5B" "c \<noteq> 0x22" "take 4 (c # r0) \<noteq> js ''true''"
          "take 5 (c # r0) \<noteq> js ''false''" "take 4 (c # r0) \<noteq> js ''null''"
      by blast
    then have "json_first c \<and> (\<exists>p. c # r0 = p @ r \<and> p \<noteq> [] \<and> json_last (last p))"
    proof cases
      case obj
      with a d obtain e r' where e: "dropWhile json_ws r0 = e # r'"
        and alt: "(e = 0x7D \<and> r = r') \<or> (\<exists>kvs. json_members n (e # r') = Some (kvs, r))"
        by (auto split: list.splits if_splits)
      from e have s0: "suffix (e # r') r0" by (rule suffix_of_dropWhile)
      from alt have "suffix (0x7D # r) (e # r')"
        using IHm by auto
      with s0 have "suffix (0x7D # r) r0" using suffix_order.trans by blast
      from closed_by [OF this] obj show ?thesis
        by (simp add: json_first_def json_last_def js_def)
    next
      case arr
      with a d obtain e r' where e: "dropWhile json_ws r0 = e # r'"
        and alt: "(e = 0x5D \<and> r = r') \<or> (\<exists>xs. json_elements n (e # r') = Some (xs, r))"
        by (auto split: list.splits if_splits)
      from e have s0: "suffix (e # r') r0" by (rule suffix_of_dropWhile)
      from alt have "suffix (0x5D # r) (e # r')"
        using IHe by auto
      with s0 have "suffix (0x5D # r) r0" using suffix_order.trans by blast
      from closed_by [OF this] arr show ?thesis
        by (simp add: json_first_def json_last_def js_def)
    next
      case str
      with a d obtain x where "json_string r0 = Some (x, r)"
        by auto
      then have "suffix (0x22 # r) r0" by (rule json_string_suffix)
      from closed_by [OF this] str show ?thesis
        by (simp add: json_first_def json_last_def)
    next
      case tr
      with a d have r: "r = drop 4 (c # r0)" by auto
      have "c # r0 = take 4 (c # r0) @ drop 4 (c # r0)" by (simp only: append_take_drop_id)
      then have "c # r0 = js ''true'' @ r" unfolding tr(4) r .
      moreover from tr(4) have "c = 0x74" by (simp add: js_def)
      ultimately show ?thesis
        by (intro conjI exI [of _ "js ''true''"]) (simp_all add: json_first_def json_last_def js_def)
    next
      case fa
      with a d have r: "r = drop 5 (c # r0)" by auto
      have "c # r0 = take 5 (c # r0) @ drop 5 (c # r0)" by (simp only: append_take_drop_id)
      then have "c # r0 = js ''false'' @ r" unfolding fa(5) r .
      moreover from fa(5) have "c = 0x66" by (simp add: js_def)
      ultimately show ?thesis
        by (intro conjI exI [of _ "js ''false''"]) (simp_all add: json_first_def json_last_def js_def)
    next
      case nu
      with a d have r: "r = drop 4 (c # r0)" by auto
      have "c # r0 = take 4 (c # r0) @ drop 4 (c # r0)" by (simp only: append_take_drop_id)
      then have "c # r0 = js ''null'' @ r" unfolding nu(6) r .
      moreover from nu(6) have "c = 0x6E" by (simp add: js_def)
      ultimately show ?thesis
        by (intro conjI exI [of _ "js ''null''"]) (simp_all add: json_first_def json_last_def js_def)
    next
      case num
      let ?tok = "takeWhile is_number_char (c # r0)"
      from num a d obtain x where x: "json_number ?tok = Some x"
        and r: "r = dropWhile is_number_char (c # r0)"
        by (auto split: option.splits)
      from json_number_shape [OF x] have ne: "?tok \<noteq> []"
        and h: "hd ?tok = 0x2D \<or> is_digit (hd ?tok)" and l: "is_digit (last ?tok)"
        by blast+
      from ne have "hd ?tok = c" by (auto split: if_splits)
      with h have "json_first c"
        using digit_first_last [of c] by (auto simp: json_first_def js_def)
      moreover have "c # r0 = ?tok @ r" unfolding r by simp
      moreover have "json_last (last ?tok)" using digit_first_last [OF l] by simp
      ultimately show ?thesis using ne by blast
    qed
    then show ?thesis unfolding d by simp
  qed
  have E: "suffix (0x5D # r) s" if a: "json_elements (Suc n) s = Some (xs, r)" for s xs r
  proof -
    from a obtain x t c r1 where v: "json_value n s = Some (x, t)"
      and d: "dropWhile json_ws t = c # r1"
      and alt: "(c = 0x5D \<and> r = r1) \<or> (c = 0x2C \<and> (\<exists>ys. json_elements n r1 = Some (ys, r)))"
      by (auto split: option.splits list.splits if_splits)
    from d have "suffix (c # r1) t" by (rule suffix_of_dropWhile)
    with IHs [OF v] have s1: "suffix (c # r1) s" using suffix_order.trans by blast
    from alt show ?thesis
    proof
      assume "c = 0x5D \<and> r = r1"
      with s1 show ?thesis by simp
    next
      assume "c = 0x2C \<and> (\<exists>ys. json_elements n r1 = Some (ys, r))"
      then have "suffix (0x5D # r) r1" using IHe by blast
      moreover from s1 have "suffix r1 s" by (rule suffix_ConsD)
      ultimately show ?thesis using suffix_order.trans by blast
    qed
  qed
  have M: "suffix (0x7D # r) s" if a: "json_members (Suc n) s = Some (kvs, r)" for s kvs r
  proof -
    from a obtain r0 k t t' v u e u' where d0: "dropWhile json_ws s = 0x22 # r0"
      and k: "json_string r0 = Some (k, t)"
      and d1: "dropWhile json_ws t = 0x3A # t'"
      and v: "json_value n t' = Some (v, u)"
      and d2: "dropWhile json_ws u = e # u'"
      and alt: "(e = 0x7D \<and> r = u') \<or> (e = 0x2C \<and> (\<exists>ys. json_members n u' = Some (ys, r)))"
      by (auto split: option.splits list.splits if_splits)
    from d0 have "suffix (0x22 # r0) s" by (rule suffix_of_dropWhile)
    then have "suffix r0 s" by (rule suffix_ConsD)
    moreover from k have "suffix (0x22 # t) r0" by (rule json_string_suffix)
    then have "suffix t r0" by (rule suffix_ConsD)
    moreover from d1 have "suffix (0x3A # t') t" by (rule suffix_of_dropWhile)
    then have "suffix t' t" by (rule suffix_ConsD)
    moreover note IHs [OF v]
    moreover from d2 have "suffix (e # u') u" by (rule suffix_of_dropWhile)
    ultimately have s1: "suffix (e # u') s"
      using suffix_order.trans by blast
    from alt show ?thesis
    proof
      assume "e = 0x7D \<and> r = u'"
      with s1 show ?thesis by simp
    next
      assume "e = 0x2C \<and> (\<exists>ys. json_members n u' = Some (ys, r))"
      then have "suffix (0x7D # r) u'" using IHm by blast
      moreover from s1 have "suffix u' s" by (rule suffix_ConsD)
      ultimately show ?thesis using suffix_order.trans by blast
    qed
  qed
  from V E M show ?case by blast
qed

text \<open>
  The fuel of \<open>JSON_parse\<close> is enough: a value that is read with some fuel is read
  with any fuel that is not less than the number of code units read, so that no text
  fails for want of fuel.
\<close>

lemma json_value_shorter:
  assumes "json_value n s = Some (v, r)"
  shows "length r < length s"
proof -
  from json_consumes [of n] assms obtain p
    where d: "dropWhile json_ws s = p @ r" and ne: "p \<noteq> []"
    by blast
  have "length (dropWhile json_ws s) \<le> length s"
    by (rule length_dropWhile_le)
  with d ne show ?thesis by (cases p) simp_all
qed

lemma json_elements_shorter:
  assumes "json_elements n s = Some (xs, r)"
  shows "length r < length s"
  using json_consumes [of n] assms suffix_length_le [of "0x5D # r" s] by fastforce

lemma json_members_shorter:
  assumes "json_members n s = Some (kvs, r)"
  shows "length r < length s"
  using json_consumes [of n] assms suffix_length_le [of "0x7D # r" s] by fastforce

lemma json_string_shorter:
  assumes "json_string s = Some (str, r)"
  shows "length r < length s"
  using json_string_suffix [OF assms] suffix_length_le [of "0x22 # r" s] by simp

lemma dropWhile_Cons_shorter:
  assumes "dropWhile P s = c # r"
  shows "length r < length s"
  using length_dropWhile_le [of P s] assms by simp

lemma json_fuel:
  "(\<forall>s v r k. json_value m s = Some (v, r) \<longrightarrow> length s - length r \<le> k
       \<longrightarrow> json_value k s = Some (v, r))
   \<and> (\<forall>s xs r k. json_elements m s = Some (xs, r) \<longrightarrow> length s - length r \<le> k
       \<longrightarrow> json_elements k s = Some (xs, r))
   \<and> (\<forall>s kvs r k. json_members m s = Some (kvs, r) \<longrightarrow> length s - length r \<le> k
       \<longrightarrow> json_members k s = Some (kvs, r))"
proof (induction m)
  case 0
  show ?case by simp
next
  case (Suc m)
  then have IHv: "\<And>s v r k. json_value m s = Some (v, r) \<Longrightarrow> length s - length r \<le> k
        \<Longrightarrow> json_value k s = Some (v, r)"
    and IHe: "\<And>s xs r k. json_elements m s = Some (xs, r) \<Longrightarrow> length s - length r \<le> k
        \<Longrightarrow> json_elements k s = Some (xs, r)"
    and IHm: "\<And>s kvs r k. json_members m s = Some (kvs, r) \<Longrightarrow> length s - length r \<le> k
        \<Longrightarrow> json_members k s = Some (kvs, r)"
    by blast+
  have V: "json_value k s = Some (v, r)"
    if a: "json_value (Suc m) s = Some (v, r)" and b: "length s - length r \<le> k" for s v r k
  proof -
    from json_value_shorter [OF a] b obtain k' where k: "k = Suc k'"
      by (cases k) auto
    from a obtain c r0 where d: "dropWhile json_ws s = c # r0"
      by (auto split: list.splits)
    note l0 = dropWhile_Cons_shorter [OF d]
    have "json_value (Suc k') s = json_value (Suc m) s"
    proof (cases "c = 0x7B")
      case obj: True
      with a d obtain e r' where e: "dropWhile json_ws r0 = e # r'"
        and alt: "(e = 0x7D \<and> r = r') \<or> (e \<noteq> 0x7D \<and> (\<exists>kvs. json_members m (e # r') = Some (kvs, r)))"
        by (auto split: list.splits if_splits)
      note l1 = dropWhile_Cons_shorter [OF e]
      show ?thesis
      proof (cases "e = 0x7D")
        case True
        with d e obj show ?thesis by simp
      next
        case False
        with alt obtain kvs where ms: "json_members m (e # r') = Some (kvs, r)"
          by blast
        have "length (e # r') - length r \<le> k'"
          using l0 l1 b k by simp
        from IHm [OF ms this] ms have "json_members k' (e # r') = json_members m (e # r')"
          by simp
        with d e obj False show ?thesis by simp
      qed
    next
      case nobj: False
      show ?thesis
      proof (cases "c = 0x5B")
        case arr: True
        with a d nobj obtain e r' where e: "dropWhile json_ws r0 = e # r'"
          and alt: "(e = 0x5D \<and> r = r') \<or> (e \<noteq> 0x5D \<and> (\<exists>xs. json_elements m (e # r') = Some (xs, r)))"
          by (auto split: list.splits if_splits)
        note l1 = dropWhile_Cons_shorter [OF e]
        show ?thesis
        proof (cases "e = 0x5D")
          case True
          with d e arr show ?thesis by simp
        next
          case False
          with alt obtain xs where es: "json_elements m (e # r') = Some (xs, r)"
            by blast
          have "length (e # r') - length r \<le> k'"
            using l0 l1 b k by simp
          from IHe [OF es this] es have "json_elements k' (e # r') = json_elements m (e # r')"
            by simp
          with d e arr False show ?thesis by simp
        qed
      next
        case False
        with d nobj show ?thesis by simp
      qed
    qed
    with a k show ?thesis by simp
  qed
  have E: "json_elements k s = Some (xs, r)"
    if a: "json_elements (Suc m) s = Some (xs, r)" and b: "length s - length r \<le> k" for s xs r k
  proof -
    from json_elements_shorter [OF a] b obtain k' where k: "k = Suc k'"
      by (cases k) auto
    from a obtain x t c r1 where v: "json_value m s = Some (x, t)"
      and d: "dropWhile json_ws t = c # r1"
      and alt: "(c = 0x5D \<and> r = r1) \<or> (c = 0x2C \<and> (\<exists>ys. json_elements m r1 = Some (ys, r)))"
      by (auto split: option.splits list.splits if_splits)
    note l0 = json_value_shorter [OF v]
    note l1 = dropWhile_Cons_shorter [OF d]
    from alt have l2: "length r \<le> length r1"
      using json_elements_shorter by fastforce
    have "length s - length t \<le> k'"
      using l0 l1 l2 b k by simp
    from IHv [OF v this] v have veq: "json_value k' s = json_value m s"
      by simp
    have "json_elements (Suc k') s = json_elements (Suc m) s"
    proof (cases "c = 0x5D")
      case True
      with veq v d show ?thesis by simp
    next
      case False
      with alt obtain ys where c: "c = 0x2C" and es: "json_elements m r1 = Some (ys, r)"
        by blast
      have "length r1 - length r \<le> k'"
        using l0 l1 b k by simp
      from IHe [OF es this] es have "json_elements k' r1 = json_elements m r1"
        by simp
      with veq v d c show ?thesis by simp
    qed
    with a k show ?thesis by simp
  qed
  have M: "json_members k s = Some (kvs, r)"
    if a: "json_members (Suc m) s = Some (kvs, r)" and b: "length s - length r \<le> k" for s kvs r k
  proof -
    from json_members_shorter [OF a] b obtain k' where k: "k = Suc k'"
      by (cases k) auto
    from a obtain r0 key t t' v u e u' where d0: "dropWhile json_ws s = 0x22 # r0"
      and ks: "json_string r0 = Some (key, t)"
      and d1: "dropWhile json_ws t = 0x3A # t'"
      and v: "json_value m t' = Some (v, u)"
      and d2: "dropWhile json_ws u = e # u'"
      and alt: "(e = 0x7D \<and> r = u') \<or> (e = 0x2C \<and> (\<exists>ys. json_members m u' = Some (ys, r)))"
      by (auto split: option.splits list.splits if_splits)
    note l0 = dropWhile_Cons_shorter [OF d0]
    note l1 = json_string_shorter [OF ks]
    note l2 = dropWhile_Cons_shorter [OF d1]
    note l3 = json_value_shorter [OF v]
    note l4 = dropWhile_Cons_shorter [OF d2]
    from alt have l5: "length r \<le> length u'"
      using json_members_shorter by fastforce
    have "length t' - length u \<le> k'"
      using l0 l1 l2 l3 l4 l5 b k by simp
    from IHv [OF v this] v have veq: "json_value k' t' = json_value m t'"
      by simp
    have "json_members (Suc k') s = json_members (Suc m) s"
    proof (cases "e = 0x7D")
      case True
      with veq v d0 ks d1 d2 show ?thesis by simp
    next
      case False
      with alt obtain ys where c: "e = 0x2C" and ms: "json_members m u' = Some (ys, r)"
        by blast
      have "length u' - length r \<le> k'"
        using l0 l1 l2 l3 l4 b k by simp
      from IHm [OF ms this] ms have "json_members k' u' = json_members m u'"
        by simp
      with veq v d0 ks d1 d2 c show ?thesis by simp
    qed
    with a k show ?thesis by simp
  qed
  from V E M show ?case by blast
qed

lemma json_value_fuel_enough:
  assumes "json_value m t = Some (v, r)"
  shows "json_value (Suc (length t)) t = Some (v, r)"
  using json_fuel [of m] assms by (metis diff_le_self le_Suc_eq)

lemma JSON_parse_any_fuel:
  "JSON_parse t = Inr v
     \<longleftrightarrow> (\<exists>m rest. json_value m t = Some (v, rest) \<and> dropWhile json_ws rest = [])"
proof
  assume "JSON_parse t = Inr v"
  then obtain rest where "json_value (Suc (length t)) t = Some (v, rest)"
    and "dropWhile json_ws rest = []"
    by (auto simp: JSON_parse_def split: option.splits if_splits)
  then show "\<exists>m rest. json_value m t = Some (v, rest) \<and> dropWhile json_ws rest = []"
    by blast
next
  assume "\<exists>m rest. json_value m t = Some (v, rest) \<and> dropWhile json_ws rest = []"
  then obtain m rest where v: "json_value m t = Some (v, rest)" and r: "dropWhile json_ws rest = []"
    by blast
  from v have "json_value (Suc (length t)) t = Some (v, rest)"
    by (rule json_value_fuel_enough)
  with r show "JSON_parse t = Inr v"
    by (simp add: JSON_parse_def)
qed

text \<open>
  A text that \<open>JSON.parse\<close> accepts is, once trimmed, the value it holds; a text
  without three backticks in a row has none after trimming.
\<close>

lemma trim_between:
  assumes w1: "\<forall>c \<in> set w1. is_space c" and w2: "\<forall>c \<in> set w2. is_space c"
    and ne: "p \<noteq> []" and h: "\<not> is_space (hd p)" and l: "\<not> is_space (last p)"
  shows "trim (w1 @ p @ w2) = p"
proof -
  have "dropWhile is_space (w1 @ p @ w2) = dropWhile is_space (p @ w2)"
    using w1 by (simp only: dropWhile_append2)
  also have "\<dots> = p @ w2"
    using ne h by (cases p) simp_all
  finally have a: "dropWhile is_space (w1 @ p @ w2) = p @ w2" .
  have w2': "\<forall>c \<in> set (rev w2). is_space c" using w2 by simp
  obtain x xs where r: "rev p = x # xs"
    using ne by (cases "rev p") simp_all
  then have "x = last p" using ne by (metis last_rev list.sel(1) rev_rev_ident hd_rev)
  with l have nx: "\<not> is_space x" by simp
  have "dropWhile is_space (rev (p @ w2)) = dropWhile is_space (rev w2 @ rev p)"
    by simp
  also have "\<dots> = dropWhile is_space (rev p)"
    using w2' by (simp only: dropWhile_append2)
  also have "\<dots> = rev p"
    unfolding r using nx by simp
  finally have "rev (dropWhile is_space (rev (p @ w2))) = p" by simp
  then show ?thesis unfolding trim_def a .
qed

lemma JSON_parse_delimited:
  assumes "JSON_parse t = Inr v"
  shows "json_delimited (trim t)"
proof -
  from assms obtain rest where v: "json_value (Suc (length t)) t = Some (v, rest)"
    and rest: "dropWhile json_ws rest = []"
    by (auto simp: JSON_parse_def split: option.splits if_splits)
  from json_consumes [of "Suc (length t)"] v obtain p
    where f: "json_first (hd (dropWhile json_ws t))"
      and d: "dropWhile json_ws t = p @ rest" and ne: "p \<noteq> []" and l: "json_last (last p)"
    by blast
  from f d ne have h: "json_first (hd p)" by simp
  have "t = takeWhile json_ws t @ dropWhile json_ws t" by simp
  then have t: "t = takeWhile json_ws t @ p @ rest" unfolding d .
  have w1: "\<forall>c \<in> set (takeWhile json_ws t). is_space c"
    by (auto dest: set_takeWhileD json_ws_space)
  have w2: "\<forall>c \<in> set rest. is_space c"
    using rest by (auto dest: json_ws_space)
  have "trim (takeWhile json_ws t @ p @ rest) = p"
    using w1 w2 ne json_first_facts [OF h] json_last_facts [OF l] by (intro trim_between) simp_all
  with t have "trim t = p" by simp
  with ne h l show ?thesis by (simp add: json_delimited_def)
qed

lemma after_fence_prefix_part: "after_fence (u @ b) = None \<Longrightarrow> after_fence u = None"
proof (induction u)
  case Nil
  show ?case by simp
next
  case (Cons c u)
  from Cons.prems have nt: "take 3 ((c # u) @ b) \<noteq> fence" and rest: "after_fence (u @ b) = None"
    by (simp_all del: take_Suc_Cons split: if_splits)
  have "take 3 (c # u) \<noteq> fence"
  proof
    assume eq: "take 3 (c # u) = fence"
    then have "length (take 3 (c # u)) = 3" by (simp add: fence_def)
    then have "3 \<le> length (c # u)" by simp
    then have "take 3 ((c # u) @ b) = take 3 (c # u)" by simp
    with eq nt show False by simp
  qed
  with Cons.IH [OF rest] show ?case by (simp del: take_Suc_Cons)
qed

lemma after_fence_trim:
  assumes "after_fence payload = None"
  shows "after_fence (trim payload) = None"
proof -
  have "after_fence (takeWhile is_space payload @ trim payload
          @ rev (takeWhile is_space (rev (dropWhile is_space payload)))) = None"
    using assms trim_split [of payload] by simp
  then have "after_fence (trim payload
          @ rev (takeWhile is_space (rev (dropWhile is_space payload)))) = None"
    by (rule after_fence_append)
  then show ?thesis by (rule after_fence_prefix_part)
qed

text \<open>
  Claim C4, amended.  For every payload that \<open>JSON.parse\<close> accepts and that holds no
  run of three backticks, the parser returns for the payload in a fenced block, tagged
  \<open>json\<close> or not, with any white space around the payload, what it returns for the
  payload alone.
\<close>

theorem fenced_payload_same:
  assumes "tag = [] \<or> tag = js ''json''"
    and "\<forall>c \<in> set ws1. is_space c" and "\<forall>c \<in> set ws2. is_space c"
    and "after_fence payload = None"
    and "JSON_parse payload = Inr v"
  shows "generateQuote (fenced tag ws1 payload ws2) currency' city'
           = generateQuote payload currency' city'"
  by (simp add: generateQuote_def
      json_text_fenced [OF assms(1-3) after_fence_trim [OF assms(4)] JSON_parse_delimited [OF assms(5)]]
      json_text_plain [OF after_fence_trim [OF assms(4)]])

text \<open>
  Claim C4, as it is stated, fails: the payload below is a JSON text whose title holds
  three backticks.  Alone it parses to a quote; in a fenced block the lazy group ends at
  the backticks of the title, the parser reads the first eleven code units of the
  payload, and fails.
\<close>

theorem fenced_backticks_counterexample:
  "generateQuote backtick_payload EUR (js ''Porto'')
     = Inr \<lparr>title = JStr (js ''a'' @ fence @ js ''b''), summary = JUndefined,
            executionTime = JStr (js ''A definir''), paymentTerms = JStr (js ''A combinar''),
            steps = [], currency = EUR, city = js ''Porto''\<rparr>
   \<and> json_text (fenced (js ''json'') [] backtick_payload []) = take 11 backtick_payload
   \<and> generateQuote (fenced (js ''json'') [] backtick_payload []) EUR (js ''Porto'')
       = Inl Error_JSON_valido"
  by code_simp

text \<open>
  A payload with white space around it, in a block tagged \<open>json\<close> with line feeds, and
  in a block without tag and white space.
\<close>

theorem fenced_payload_same_witness:
  "after_fence plain_payload = None
   \<and> (\<exists>v. JSON_parse plain_payload = Inr v)
   \<and> generateQuote (fenced (js ''json'') [0x0A] plain_payload [0x0A]) EUR (js ''Porto'')
       = generateQuote plain_payload EUR (js ''Porto'')
   \<and> generateQuote (fenced [] [] plain_payload []) EUR (js ''Porto'')
       = generateQuote plain_payload EUR (js ''Porto'')
   \<and> generateQuote plain_payload EUR (js ''Porto'')
       = Inr \<lparr>title = JStr (js ''T''), summary = JUndefined,
              executionTime = JStr (js ''A definir''), paymentTerms = JStr (js ''A combinar''),
              steps = [], currency = EUR, city = js ''Porto''\<rparr>"
proof -
  have nf: "after_fence plain_payload = None"
    by code_simp
  have jp: "JSON_parse plain_payload = Inr (JObj [(js ''title'', JStr (js ''T'')), (js ''steps'', JArr [])])"
    by code_simp
  have ws: "\<forall>c \<in> set [0x0A]. is_space c" "\<forall>c \<in> set []. is_space c"
    by (simp_all add: is_space_def)
  have v: "generateQuote plain_payload EUR (js ''Porto'')
       = Inr \<lparr>title = JStr (js ''T''), summary = JUndefined,
              executionTime = JStr (js ''A definir''), paymentTerms = JStr (js ''A combinar''),
              steps = [], currency = EUR, city = js ''Porto''\<rparr>"
    by code_simp
  from fenced_payload_same [OF _ ws(1) ws(1) nf jp, of "js ''json''" EUR "js ''Porto''"]
       fenced_payload_same [OF _ ws(2) ws(2) nf jp, of "[]" EUR "js ''Porto''"]
       nf jp v
  show ?thesis by simp
qed

end
